theory Spec2Isabelle
  imports Main "HOL-Library.AList"
begin

section \<open>worker-timer: timers that fire in a Web Worker\<close>

text \<open>
  The library keeps two registries, one in the main thread and one in a worker, and
  correlates them by a numeric timer id carried in messages. This theory embeds
  \<^verbatim>\<open>createWorker.ts\<close> and the final \<^verbatim>\<open>index.ts\<close> (\<^verbatim>\<open>createWorkerTimer\<close>,
  \<^verbatim>\<open>_timerWorker\<close>, the module-level default instance).

  Conventions of the embedding:
  \<^item> A JavaScript \<^verbatim>\<open>Map\<close> is an association list in insertion order: \<^verbatim>\<open>set\<close> is
    \<^const>\<open>AList.update\<close> (replace in place, else append), \<^verbatim>\<open>delete\<close> is
    \<^const>\<open>AList.delete\<close>, \<^verbatim>\<open>get\<close> is \<^const>\<open>map_of\<close>.
  \<^item> \<^verbatim>\<open>TimerId\<close> is a \<^typ>\<open>nat\<close>. The source counts with \<^verbatim>\<open>seq++\<close> on a JavaScript
    number, which is exact for every value below \<open>2^53\<close>; the specification places
    exhaustion of that range out of scope.
  \<^item> A user callback is an opaque value of type \<open>'f\<close>, its arguments a list of opaque
    values of type \<open>'a\<close>. Calling it is recorded in a chronological trace; whether
    the call returns or throws is decided by the environment.
  \<^item> A closure built by the source is a constructor holding the captured variables.
  \<^item> A duration is a number of milliseconds that is only stored and forwarded.
\<close>

subsection \<open>Messages\<close>

type_synonym TimerId = nat

datatype set_type = T_setTimeout | T_setInterval

datatype clear_type = T_clearTimeout | T_clearInterval

datatype MessageToWorker =
    SetTimerMessage TimerId set_type int
  | ClearTimerMessage TimerId clear_type

datatype MessageFromWorker =
    InvokeMessage TimerId
  | ClearMessage TimerId

fun msg_id :: "MessageFromWorker \<Rightarrow> TimerId" where
  "msg_id (InvokeMessage i) = i"
| "msg_id (ClearMessage i) = i"

subsection \<open>Main thread: \<^verbatim>\<open>createWorkerTimer\<close>\<close>

text \<open>
  \<^verbatim>\<open>invokeFunc\<close> of \<^verbatim>\<open>setTimer\<close>: for \<^verbatim>\<open>'setTimeout'\<close> a closure over \<^verbatim>\<open>func\<close> and
  \<^verbatim>\<open>id\<close> that calls \<^verbatim>\<open>func\<close> and then deletes \<^verbatim>\<open>id\<close> from \<^verbatim>\<open>idMap\<close>; otherwise
  \<^verbatim>\<open>func\<close> itself.
\<close>

datatype 'f invokeFunc =
    Call_then_delete 'f TimerId
  | Call_only 'f

record ('f, 'a) TimerTransaction =
  t_id :: TimerId
  t_type :: set_type
  t_func :: "'f invokeFunc"
  t_duration :: int
  t_args :: "'a list"

text \<open>How a call of a user callback ends.\<close>

datatype outcome = Returns | Throws

text \<open>
  What the main thread does, in the order it does it: registry writes, messages handed
  to \<^verbatim>\<open>worker.postMessage\<close>, and calls of user callbacks (tagged with the id of the
  notification being handled).
\<close>

datatype ('f, 'a) effect =
    Reg_set TimerId
  | Reg_delete TimerId
  | Post MessageToWorker
  | Call TimerId 'f "'a list"

record ('f, 'a) main_state =
  idMap :: "(TimerId \<times> ('f, 'a) TimerTransaction) list"
  seq :: nat
  trace :: "('f, 'a) effect list"

definition nextId :: "('f, 'a) main_state \<Rightarrow> TimerId \<times> ('f, 'a) main_state" where
  "nextId m = (seq m, m\<lparr>seq := seq m + 1\<rparr>)"

definition idMap_set ::
  "TimerId \<Rightarrow> ('f, 'a) TimerTransaction \<Rightarrow> ('f, 'a) main_state \<Rightarrow> ('f, 'a) main_state" where
  "idMap_set i t m =
     m\<lparr>idMap := AList.update i t (idMap m), trace := trace m @ [Reg_set i]\<rparr>"

definition idMap_delete :: "TimerId \<Rightarrow> ('f, 'a) main_state \<Rightarrow> ('f, 'a) main_state" where
  "idMap_delete i m =
     m\<lparr>idMap := AList.delete i (idMap m), trace := trace m @ [Reg_delete i]\<rparr>"

definition postMessage :: "MessageToWorker \<Rightarrow> ('f, 'a) main_state \<Rightarrow> ('f, 'a) main_state" where
  "postMessage msg m = m\<lparr>trace := trace m @ [Post msg]\<rparr>"

text \<open>
  \<^verbatim>\<open>setTimer(type, func, duration = 0, ...args)\<close>: a missing duration is \<open>None\<close>.
\<close>

definition setTimer ::
  "set_type \<Rightarrow> 'f \<Rightarrow> int option \<Rightarrow> 'a list \<Rightarrow> ('f, 'a) main_state
    \<Rightarrow> TimerId \<times> ('f, 'a) main_state" where
  "setTimer ty f dur as m =
     (let (i, m1) = nextId m;
          d = (case dur of None \<Rightarrow> 0 | Some d \<Rightarrow> d);
          invoke = (if ty = T_setTimeout then Call_then_delete f i else Call_only f);
          m2 = idMap_set i \<lparr>t_id = i, t_type = ty, t_func = invoke,
                            t_duration = d, t_args = as\<rparr> m1;
          m3 = postMessage (SetTimerMessage i ty d) m2
      in (i, m3))"

definition clearTimer ::
  "clear_type \<Rightarrow> TimerId \<Rightarrow> ('f, 'a) main_state \<Rightarrow> ('f, 'a) main_state" where
  "clearTimer ty i m = idMap_delete i (postMessage (ClearTimerMessage i ty) m)"

text \<open>
  \<^verbatim>\<open>transaction.func(...transaction.args)\<close> while handling a notification for \<open>i\<close>.
  The closure for \<^verbatim>\<open>'setTimeout'\<close> runs \<^verbatim>\<open>func(...args); idMap.delete(id)\<close> with no
  \<^verbatim>\<open>try\<close>: when \<^verbatim>\<open>func\<close> throws, the delete is not reached.
\<close>

fun call_func ::
  "TimerId \<Rightarrow> 'f invokeFunc \<Rightarrow> 'a list \<Rightarrow> outcome \<Rightarrow> ('f, 'a) main_state
    \<Rightarrow> outcome \<times> ('f, 'a) main_state" where
  "call_func i (Call_only f) as oc m = (oc, m\<lparr>trace := trace m @ [Call i f as]\<rparr>)"
| "call_func i (Call_then_delete f j) as oc m =
     (let m1 = m\<lparr>trace := trace m @ [Call i f as]\<rparr>
      in case oc of Throws \<Rightarrow> (Throws, m1) | Returns \<Rightarrow> (Returns, idMap_delete j m1))"

text \<open>
  The \<^verbatim>\<open>message\<close> listener of the main thread. The outcome returned is that of the
  listener itself: \<open>Throws\<close> when the user callback threw.
\<close>

definition onmessage ::
  "MessageFromWorker \<Rightarrow> outcome \<Rightarrow> ('f, 'a) main_state \<Rightarrow> outcome \<times> ('f, 'a) main_state" where
  "onmessage msg oc m =
     (let i = msg_id msg
      in case map_of (idMap m) i of
           None \<Rightarrow> (Returns, m)
         | Some transaction \<Rightarrow>
             (case msg of
                InvokeMessage _ \<Rightarrow> call_func i (t_func transaction) (t_args transaction) oc m
              | ClearMessage _ \<Rightarrow> (Returns, idMap_delete i m)))"

subsection \<open>Worker thread: \<^verbatim>\<open>_timerWorker\<close>\<close>

type_synonym handle = nat

text \<open>
  \<^verbatim>\<open>callback\<close> of the worker's listener: for \<^verbatim>\<open>'setTimeout'\<close> a closure that posts the
  invoke message and deletes \<^verbatim>\<open>id\<close> from the worker's \<^verbatim>\<open>idMap\<close>; otherwise \<^verbatim>\<open>invoke\<close>
  alone.
\<close>

datatype worker_callback =
    Invoke_then_delete TimerId
  | Invoke_only TimerId

fun callback_id :: "worker_callback \<Rightarrow> TimerId" where
  "callback_id (Invoke_then_delete i) = i"
| "callback_id (Invoke_only i) = i"

text \<open>
  An entry of the host's list of active timers: the primitive that made it
  (\<^verbatim>\<open>self[type]\<close>), the callback and the delay passed to it.
\<close>

record native_timer =
  n_prim :: set_type
  n_callback :: worker_callback
  n_delay :: int

record worker_state =
  worker_idMap :: "(TimerId \<times> handle) list"
  timers :: "(handle \<times> native_timer) list"
  posted :: "MessageFromWorker list"

text \<open>
  The host's primitives inside the worker. \<^verbatim>\<open>self.setTimeout\<close> and \<^verbatim>\<open>self.setInterval\<close>
  enter the timer under the handle \<open>h\<close> that the host picks and return \<open>h\<close>.
  \<^verbatim>\<open>self.clearTimeout\<close> and \<^verbatim>\<open>self.clearInterval\<close> work on the same list of active
  timers and ignore \<^verbatim>\<open>undefined\<close>.
\<close>

definition native_set ::
  "set_type \<Rightarrow> worker_callback \<Rightarrow> int \<Rightarrow> handle \<Rightarrow> worker_state \<Rightarrow> handle \<times> worker_state" where
  "native_set ty cb d h w =
     (h, w\<lparr>timers := timers w @ [(h, \<lparr>n_prim = ty, n_callback = cb, n_delay = d\<rparr>)]\<rparr>)"

definition native_clear :: "clear_type \<Rightarrow> handle option \<Rightarrow> worker_state \<Rightarrow> worker_state" where
  "native_clear ty ho w =
     (case ho of None \<Rightarrow> w | Some h \<Rightarrow> w\<lparr>timers := AList.delete h (timers w)\<rparr>)"

text \<open>The worker's \<^verbatim>\<open>message\<close> listener; \<open>h\<close> is the handle the host would hand out.\<close>

definition worker_onmessage ::
  "MessageToWorker \<Rightarrow> handle \<Rightarrow> worker_state \<Rightarrow> worker_state" where
  "worker_onmessage msg h w =
     (case msg of
        SetTimerMessage i ty d \<Rightarrow>
          (let callback = (if ty = T_setTimeout then Invoke_then_delete i else Invoke_only i);
               (nativeId, w1) = native_set ty callback d h w
           in w1\<lparr>worker_idMap := AList.update i nativeId (worker_idMap w1)\<rparr>)
      | ClearTimerMessage i ty \<Rightarrow>
          (let w1 = native_clear ty (map_of (worker_idMap w) i) w
           in w1\<lparr>worker_idMap := AList.delete i (worker_idMap w1)\<rparr>))"

fun run_callback :: "worker_callback \<Rightarrow> worker_state \<Rightarrow> worker_state" where
  "run_callback (Invoke_only i) w = w\<lparr>posted := posted w @ [InvokeMessage i]\<rparr>"
| "run_callback (Invoke_then_delete i) w =
     (let w1 = w\<lparr>posted := posted w @ [InvokeMessage i]\<rparr>
      in w1\<lparr>worker_idMap := AList.delete i (worker_idMap w1)\<rparr>)"

text \<open>
  The host runs the active timer \<open>h\<close>. A timer made by \<^verbatim>\<open>setTimeout\<close> leaves the list
  of active timers; one made by \<^verbatim>\<open>setInterval\<close> stays. No active timer \<open>h\<close>: nothing runs.
\<close>

definition native_fires :: "handle \<Rightarrow> worker_state \<Rightarrow> worker_state" where
  "native_fires h w =
     (case map_of (timers w) h of
        None \<Rightarrow> w
      | Some t \<Rightarrow>
          run_callback (n_callback t)
            (if n_prim t = T_setTimeout then w\<lparr>timers := AList.delete h (timers w)\<rparr> else w))"

subsection \<open>One instance: both threads and the two message queues\<close>

text \<open>
  The channel is ordered and reliable: each direction is a queue. \<open>terminated\<close> is set by
  \<^verbatim>\<open>worker.terminate()\<close>; from then on the worker runs nothing. After it, messages the
  worker had already posted may still reach the main thread: the model allows it, so what
  is proved of every run holds whether or not the host drops them.
\<close>

record ('f, 'a) sys =
  main :: "('f, 'a) main_state"
  worker :: worker_state
  to_worker :: "MessageToWorker list"
  to_main :: "MessageFromWorker list"
  terminated :: bool

text \<open>The state right after \<^verbatim>\<open>createWorkerTimer()\<close> has returned.\<close>

definition init :: "('f, 'a) sys" where
  "init = \<lparr>main = \<lparr>idMap = [], seq = 0, trace = []\<rparr>,
           worker = \<lparr>worker_idMap = [], timers = [], posted = []\<rparr>,
           to_worker = [], to_main = [], terminated = False\<rparr>"

text \<open>The five methods of the object that \<^verbatim>\<open>createWorkerTimer\<close> returns.\<close>

datatype ('f, 'a) api_call =
    Call_setTimeout 'f "int option" "'a list"
  | Call_setInterval 'f "int option" "'a list"
  | Call_clearTimeout TimerId
  | Call_clearInterval TimerId
  | Call_terminate

fun api ::
  "('f, 'a) api_call \<Rightarrow> ('f, 'a) main_state \<Rightarrow> TimerId option \<times> ('f, 'a) main_state" where
  "api (Call_setTimeout f d as) m = (let (i, m') = setTimer T_setTimeout f d as m in (Some i, m'))"
| "api (Call_setInterval f d as) m = (let (i, m') = setTimer T_setInterval f d as m in (Some i, m'))"
| "api (Call_clearTimeout i) m = (None, clearTimer T_clearTimeout i m)"
| "api (Call_clearInterval i) m = (None, clearTimer T_clearInterval i m)"
| "api Call_terminate m = (None, m)"

fun posts_of :: "('f, 'a) effect list \<Rightarrow> MessageToWorker list" where
  "posts_of [] = []"
| "posts_of (Post msg # es) = msg # posts_of es"
| "posts_of (_ # es) = posts_of es"

text \<open>The messages posted between the main-thread states \<open>m\<close> and \<open>m'\<close>.\<close>

definition new_posts :: "('f, 'a) main_state \<Rightarrow> ('f, 'a) main_state \<Rightarrow> MessageToWorker list" where
  "new_posts m m' = posts_of (drop (length (trace m)) (trace m'))"

fun is_set :: "MessageToWorker \<Rightarrow> bool" where
  "is_set (SetTimerMessage _ _ _) = True"
| "is_set (ClearTimerMessage _ _) = False"

text \<open>
  What can happen to an instance: a method call; the worker handling the next message of
  its queue (the host would hand out handle \<open>h\<close>, which is not that of an active timer);
  the host running active timer \<open>h\<close> in the worker; the main thread handling the next
  message of its queue, a user callback called in that turn ending as given. A user
  callback that calls methods of the instance is the handling event followed by those
  method calls: the only statement of the source after the call of the user callback is
  \<^verbatim>\<open>idMap.delete(id)\<close> for an id already allocated, and doing it before those calls
  or after them gives the same registry, id counter and queue. Only the order in which
  the effects of that turn stand in the trace differs.
\<close>

datatype ('f, 'a) event =
    Api "('f, 'a) api_call"
  | Worker_receives handle
  | Native_fires handle
  | Main_receives outcome

fun step :: "('f, 'a) event \<Rightarrow> ('f, 'a) sys \<Rightarrow> ('f, 'a) sys" where
  "step (Api c) s =
     (let m' = snd (api c (main s))
      in s\<lparr>main := m', to_worker := to_worker s @ new_posts (main s) m',
            terminated := (terminated s \<or> c = Call_terminate)\<rparr>)"
| "step (Worker_receives h) s =
     (if terminated s then s
      else case to_worker s of
             [] \<Rightarrow> s
           | msg # q \<Rightarrow>
               if is_set msg \<and> h \<in> fst ` set (timers (worker s)) then s
               else s\<lparr>worker := worker_onmessage msg h (worker s), to_worker := q\<rparr>)"
| "step (Native_fires h) s =
     (if terminated s then s
      else let w' = native_fires h (worker s)
           in s\<lparr>worker := w',
                 to_main := to_main s @ drop (length (posted (worker s))) (posted w')\<rparr>)"
| "step (Main_receives oc) s =
     (case to_main s of
        [] \<Rightarrow> s
      | msg # q \<Rightarrow> s\<lparr>main := snd (onmessage msg oc (main s)), to_main := q\<rparr>)"

fun run :: "('f, 'a) event list \<Rightarrow> ('f, 'a) sys \<Rightarrow> ('f, 'a) sys" where
  "run [] s = s"
| "run (e # es) s = run es (step e s)"

text \<open>The value a method call returns: the new id for the two scheduling calls.\<close>

fun result :: "('f, 'a) event \<Rightarrow> ('f, 'a) sys \<Rightarrow> TimerId option" where
  "result (Api c) s = fst (api c (main s))"
| "result _ s = None"

fun returned :: "('f, 'a) event list \<Rightarrow> ('f, 'a) sys \<Rightarrow> TimerId list" where
  "returned [] s = []"
| "returned (e # es) s =
     (case result e s of None \<Rightarrow> [] | Some i \<Rightarrow> [i]) @ returned es (step e s)"

subsection \<open>Creating the worker: \<^verbatim>\<open>createWorker.ts\<close>\<close>

text \<open>
  The calls into the host that building a worker makes, in the source's names. The host
  decides which of them throw: \<open>host c = Some e\<close> when call \<open>c\<close> throws \<open>e\<close>. A
  computation yields the host calls it made, in order, and either the error it threw or
  its value.
\<close>

datatype host_call =
    FunctionToDataUrl
  | New_Worker_data_url
  | FunctionToObjectUrl
  | New_Worker_object_url
  | RevokeObjectURL

datatype Worker = Worker_of_data_url | Worker_of_object_url

type_synonym 'e host = "host_call \<Rightarrow> 'e option"

type_synonym ('e, 'r) attempt = "host_call list \<times> ('e + 'r)"

definition host_do :: "'e host \<Rightarrow> host_call \<Rightarrow> ('e, unit) attempt" where
  "host_do host c = ([c], case host c of None \<Rightarrow> Inr () | Some e \<Rightarrow> Inl e)"

definition and_then :: "('e, 'r) attempt \<Rightarrow> ('r \<Rightarrow> ('e, 'q) attempt) \<Rightarrow> ('e, 'q) attempt" where
  "and_then a k =
     (case snd a of
        Inl e \<Rightarrow> (fst a, Inl e)
      | Inr x \<Rightarrow> (fst a @ fst (k x), snd (k x)))"

definition try_catch :: "('e, 'r) attempt \<Rightarrow> ('e \<Rightarrow> ('e, 'r) attempt) \<Rightarrow> ('e, 'r) attempt" where
  "try_catch a k =
     (case snd a of
        Inl e \<Rightarrow> (fst a @ fst (k e), snd (k e))
      | Inr x \<Rightarrow> (fst a, Inr x))"

definition createWorkerWithDataUrl :: "'e host \<Rightarrow> ('e, Worker) attempt" where
  "createWorkerWithDataUrl host =
     and_then (host_do host FunctionToDataUrl) (\<lambda>_.
     and_then (host_do host New_Worker_data_url) (\<lambda>_.
     ([], Inr Worker_of_data_url)))"

definition createWorkerWithBlob :: "'e host \<Rightarrow> ('e, Worker) attempt" where
  "createWorkerWithBlob host =
     and_then (host_do host FunctionToObjectUrl) (\<lambda>_.
     and_then (host_do host New_Worker_object_url) (\<lambda>_.
     and_then (host_do host RevokeObjectURL) (\<lambda>_.
     ([], Inr Worker_of_object_url))))"

definition createWorker :: "'e host \<Rightarrow> ('e, Worker) attempt" where
  "createWorker host =
     try_catch (createWorkerWithDataUrl host) (\<lambda>e. createWorkerWithBlob host)"

text \<open>
  \<^verbatim>\<open>createWorkerTimer\<close> calls \<^verbatim>\<open>createWorker\<close> outside any \<^verbatim>\<open>try\<close>; nothing after that
  call throws.
\<close>

definition createWorkerTimer :: "'e host \<Rightarrow> ('e, ('f, 'a) sys) attempt" where
  "createWorkerTimer host = and_then (createWorker host) (\<lambda>w. ([], Inr init))"

subsection \<open>The module-level default instance\<close>

text \<open>
  \<^verbatim>\<open>defaultWorkerTimer\<close> is \<^verbatim>\<open>null\<close> or the default instance. \<^verbatim>\<open>getWorkerTimer\<close> is not
  exported, so nothing else refers to that instance and the variable can hold its state.
  \<open>created\<close> counts the instances that \<^verbatim>\<open>getWorkerTimer\<close> has created.
\<close>

record ('f, 'a) module_state =
  defaultWorkerTimer :: "('f, 'a) sys option"
  created :: nat

definition module_init :: "('f, 'a) module_state" where
  "module_init = \<lparr>defaultWorkerTimer = None, created = 0\<rparr>"

definition getWorkerTimer ::
  "'e host \<Rightarrow> ('f, 'a) module_state \<Rightarrow> ('e + ('f, 'a) sys) \<times> ('f, 'a) module_state" where
  "getWorkerTimer host M =
     (case defaultWorkerTimer M of
        None \<Rightarrow>
          (case snd (createWorkerTimer host) of
             Inl e \<Rightarrow> (Inl e, M)
           | Inr inst \<Rightarrow> (Inr inst, M\<lparr>defaultWorkerTimer := Some inst, created := created M + 1\<rparr>))
      | Some inst \<Rightarrow> (Inr inst, M))"

text \<open>
  A bare module function: \<^verbatim>\<open>getWorkerTimer().method(...args)\<close>. The result is the error
  thrown or the value the method returns.
\<close>

definition bare ::
  "('f, 'a) api_call \<Rightarrow> 'e host \<Rightarrow> ('f, 'a) module_state
    \<Rightarrow> ('e + TimerId option) \<times> ('f, 'a) module_state" where
  "bare c host M =
     (case getWorkerTimer host M of
        (Inl e, M') \<Rightarrow> (Inl e, M')
      | (Inr inst, M') \<Rightarrow>
          (Inr (result (Api c) inst), M'\<lparr>defaultWorkerTimer := Some (step (Api c) inst)\<rparr>))"

definition setInterval ::
  "'f \<Rightarrow> int option \<Rightarrow> 'a list \<Rightarrow> 'e host \<Rightarrow> ('f, 'a) module_state
    \<Rightarrow> ('e + TimerId option) \<times> ('f, 'a) module_state" where
  "setInterval f d as = bare (Call_setInterval f d as)"

definition setTimeout ::
  "'f \<Rightarrow> int option \<Rightarrow> 'a list \<Rightarrow> 'e host \<Rightarrow> ('f, 'a) module_state
    \<Rightarrow> ('e + TimerId option) \<times> ('f, 'a) module_state" where
  "setTimeout f d as = bare (Call_setTimeout f d as)"

definition clearInterval ::
  "TimerId \<Rightarrow> 'e host \<Rightarrow> ('f, 'a) module_state
    \<Rightarrow> ('e + TimerId option) \<times> ('f, 'a) module_state" where
  "clearInterval i = bare (Call_clearInterval i)"

definition clearTimeout ::
  "TimerId \<Rightarrow> 'e host \<Rightarrow> ('f, 'a) module_state
    \<Rightarrow> ('e + TimerId option) \<times> ('f, 'a) module_state" where
  "clearTimeout i = bare (Call_clearTimeout i)"

definition terminate ::
  "'e host \<Rightarrow> ('f, 'a) module_state \<Rightarrow> ('e + TimerId option) \<times> ('f, 'a) module_state" where
  "terminate = bare Call_terminate"

text \<open>
  What can happen to the module: a bare function is called, under a host that decides
  whether building a worker throws; or something happens to the default instance.
\<close>

datatype ('e, 'f, 'a) module_event =
    Bare "('f, 'a) api_call" "'e host"
  | Instance "('f, 'a) event"

fun module_step ::
  "('e, 'f, 'a) module_event \<Rightarrow> ('f, 'a) module_state \<Rightarrow> ('f, 'a) module_state" where
  "module_step (Bare c host) M = snd (bare c host M)"
| "module_step (Instance e) M =
     M\<lparr>defaultWorkerTimer := map_option (step e) (defaultWorkerTimer M)\<rparr>"

fun module_run ::
  "('e, 'f, 'a) module_event list \<Rightarrow> ('f, 'a) module_state \<Rightarrow> ('f, 'a) module_state" where
  "module_run [] M = M"
| "module_run (ev # evs) M = module_run evs (module_step ev M)"

subsection \<open>Notions used in the statements\<close>

text \<open>An entry of the trace that is a call of a user callback for the notification id \<open>i\<close>.\<close>

fun called :: "TimerId \<Rightarrow> ('f, 'a) effect \<Rightarrow> bool" where
  "called i (Call j _ _) = (i = j)"
| "called i _ = False"

text \<open>The method calls and events that return a new id.\<close>

fun scheduling :: "('f, 'a) api_call \<Rightarrow> bool" where
  "scheduling (Call_setTimeout _ _ _) = True"
| "scheduling (Call_setInterval _ _ _) = True"
| "scheduling _ = False"

fun schedules :: "('f, 'a) event \<Rightarrow> bool" where
  "schedules (Api c) = scheduling c"
| "schedules _ = False"

text \<open>The events in which the main thread handles a message.\<close>

fun main_receives :: "('f, 'a) event \<Rightarrow> bool" where
  "main_receives (Main_receives _) = True"
| "main_receives _ = False"

text \<open>
  The method of the instance that passes the given type to \<^verbatim>\<open>setTimer\<close>, and the one
  that passes the given type to \<^verbatim>\<open>clearTimer\<close>.
\<close>

definition set_call :: "set_type \<Rightarrow> 'f \<Rightarrow> int option \<Rightarrow> 'a list \<Rightarrow> ('f, 'a) api_call" where
  "set_call ty f d as = (case ty of T_setTimeout \<Rightarrow> Call_setTimeout f d as
                                  | T_setInterval \<Rightarrow> Call_setInterval f d as)"

definition clear_call :: "clear_type \<Rightarrow> TimerId \<Rightarrow> ('f, 'a) api_call" where
  "clear_call ty i = (case ty of T_clearTimeout \<Rightarrow> Call_clearTimeout i
                               | T_clearInterval \<Rightarrow> Call_clearInterval i)"

text \<open>The calls of user callbacks made so far for notifications with id \<open>i\<close>.\<close>

definition invocations :: "TimerId \<Rightarrow> ('f, 'a) main_state \<Rightarrow> ('f, 'a) effect list" where
  "invocations i m = filter (called i) (trace m)"

text \<open>
  An entry of the main thread's registry as \<^verbatim>\<open>setTimer\<close> writes it: stored under its own
  id, with the deleting closure exactly for \<^verbatim>\<open>'setTimeout'\<close>.
\<close>

fun stored_ok :: "TimerId \<times> ('f, 'a) TimerTransaction \<Rightarrow> bool" where
  "stored_ok (k, t) =
     (t_id t = k \<and>
      (case t_func t of
         Call_then_delete f j \<Rightarrow> t_type t = T_setTimeout \<and> j = k
       | Call_only f \<Rightarrow> t_type t = T_setInterval))"

text \<open>A call recorded in the trace is for an id below \<open>n\<close>.\<close>

fun call_below :: "nat \<Rightarrow> ('f, 'a) effect \<Rightarrow> bool" where
  "call_below n (Call j _ _) = (j < n)"
| "call_below n _ = True"

text \<open>
  The main thread is consistent: the registry's keys are allocated ids, each key occurs
  once, every entry is as \<^verbatim>\<open>setTimer\<close> writes it, and callbacks have been called only
  for allocated ids.
\<close>

definition main_inv :: "('f, 'a) main_state \<Rightarrow> bool" where
  "main_inv m \<longleftrightarrow>
     list_all (\<lambda>e. fst e < seq m) (idMap m)
     \<and> distinct (map fst (idMap m))
     \<and> list_all stored_ok (idMap m)
     \<and> list_all (call_below (seq m)) (trace m)"

text \<open>The user callback inside a stored \<^verbatim>\<open>invokeFunc\<close>.\<close>

fun user_func :: "'f invokeFunc \<Rightarrow> 'f" where
  "user_func (Call_then_delete f j) = f"
| "user_func (Call_only f) = f"

text \<open>
  Id \<open>i\<close> has been allocated, has no Transaction and no callback has been called for it.
\<close>

definition gone :: "TimerId \<Rightarrow> ('f, 'a) main_state \<Rightarrow> bool" where
  "gone i m \<longleftrightarrow> i < seq m \<and> map_of (idMap m) i = None \<and> invocations i m = []"

text \<open>The default instance exists and its worker has been terminated.\<close>

definition default_terminated :: "('f, 'a) module_state \<Rightarrow> bool" where
  "default_terminated M =
     (case defaultWorkerTimer M of None \<Rightarrow> False | Some inst \<Rightarrow> terminated inst)"

text \<open>
  \<^verbatim>\<open>getWorkerTimer\<close> has created at most one instance, and the variable holds an instance
  exactly when it has created one.
\<close>

definition created_once :: "('f, 'a) module_state \<Rightarrow> bool" where
  "created_once M \<longleftrightarrow> created M \<le> 1 \<and> (defaultWorkerTimer M = None) = (created M = 0)"

text \<open>The ids of the set-timer messages in a queue, in queue order.\<close>

fun set_ids :: "MessageToWorker list \<Rightarrow> TimerId list" where
  "set_ids [] = []"
| "set_ids (SetTimerMessage i _ _ # q) = i # set_ids q"
| "set_ids (ClearTimerMessage _ _ # q) = set_ids q"

text \<open>The id that the callback of an active native timer carries.\<close>

definition timer_id :: "handle \<times> native_timer \<Rightarrow> TimerId" where
  "timer_id e = callback_id (n_callback (snd e))"

text \<open>The callback of an active native timer is the one the worker builds for its primitive.\<close>

definition timer_ok :: "handle \<times> native_timer \<Rightarrow> bool" where
  "timer_ok e =
     (case n_callback (snd e) of
        Invoke_then_delete _ \<Rightarrow> n_prim (snd e) = T_setTimeout
      | Invoke_only _ \<Rightarrow> n_prim (snd e) = T_setInterval)"

text \<open>
  The worker is consistent: handles and ids of the active native timers are pairwise
  different, and the worker's \<^verbatim>\<open>idMap\<close> holds exactly the pairs (id, handle) of the
  active native timers, each key once.
\<close>

definition worker_ok :: "worker_state \<Rightarrow> bool" where
  "worker_ok w \<longleftrightarrow>
     distinct (map fst (timers w))
     \<and> distinct (map timer_id (timers w))
     \<and> list_all timer_ok (timers w)
     \<and> distinct (map fst (worker_idMap w))
     \<and> set (worker_idMap w) = (\<lambda>e. (timer_id e, fst e)) ` set (timers w)"

text \<open>
  The queue to the worker against the id counter \<open>n\<close> and the worker: the ids still to
  be set up are increasing, below \<open>n\<close>, and above the id of every active native timer.
\<close>

definition chan_ok :: "nat \<Rightarrow> MessageToWorker list \<Rightarrow> worker_state \<Rightarrow> bool" where
  "chan_ok n q w \<longleftrightarrow>
     sorted_wrt (<) (set_ids q)
     \<and> list_all (\<lambda>i. i < n) (set_ids q)
     \<and> list_all (\<lambda>e. timer_id e < n \<and> list_all (\<lambda>j. timer_id e < j) (set_ids q)) (timers w)"

text \<open>The worker is consistent, and so is the queue to it.\<close>

definition lockstep_inv :: "('f, 'a) sys \<Rightarrow> bool" where
  "lockstep_inv s \<longleftrightarrow>
     worker_ok (worker s) \<and> chan_ok (seq (main s)) (to_worker s) (worker s)"

text \<open>
  Two hosts as examples: one where no call throws, and one where \<^verbatim>\<open>new Worker(...)\<close>
  throws error \<open>1\<close> for the data URL and error \<open>2\<close> for the object URL.
\<close>

definition host_ok :: "nat host" where
  "host_ok c = None"

definition host_blocked :: "nat host" where
  "host_blocked c =
     (if c = New_Worker_data_url then Some 1
      else if c = New_Worker_object_url then Some 2 else None)"

section \<open>Auxiliary facts\<close>

lemma fst_setTimer: "fst (setTimer ty f d as m) = seq m"
  by (simp add: setTimer_def nextId_def Let_def)

lemma seq_setTimer: "seq (snd (setTimer ty f d as m)) = Suc (seq m)"
  by (simp add: setTimer_def nextId_def idMap_set_def postMessage_def Let_def)

lemma idMap_setTimer:
  "idMap (snd (setTimer ty f d as m))
     = AList.update (seq m)
         \<lparr>t_id = seq m, t_type = ty,
          t_func = (if ty = T_setTimeout then Call_then_delete f (seq m) else Call_only f),
          t_duration = (case d of None \<Rightarrow> 0 | Some x \<Rightarrow> x), t_args = as\<rparr>
         (idMap m)"
  by (simp add: setTimer_def nextId_def idMap_set_def postMessage_def Let_def)

lemma trace_setTimer:
  "trace (snd (setTimer ty f d as m))
     = trace m @ [Reg_set (seq m),
                  Post (SetTimerMessage (seq m) ty (case d of None \<Rightarrow> 0 | Some x \<Rightarrow> x))]"
  by (simp add: setTimer_def nextId_def idMap_set_def postMessage_def Let_def)

lemma seq_clearTimer: "seq (clearTimer ty i m) = seq m"
  by (simp add: clearTimer_def idMap_delete_def postMessage_def)

lemma idMap_clearTimer: "idMap (clearTimer ty i m) = AList.delete i (idMap m)"
  by (simp add: clearTimer_def idMap_delete_def postMessage_def)

lemma trace_clearTimer:
  "trace (clearTimer ty i m) = trace m @ [Post (ClearTimerMessage i ty), Reg_delete i]"
  by (simp add: clearTimer_def idMap_delete_def postMessage_def)

lemma new_posts_append: "trace m' = trace m @ xs \<Longrightarrow> new_posts m m' = posts_of xs"
  by (simp add: new_posts_def)

lemma call_func_cases:
  "(\<exists>f. snd (call_func i g as oc m) = m\<lparr>trace := trace m @ [Call i f as]\<rparr>)
   \<or> (\<exists>f j. g = Call_then_delete f j \<and> oc = Returns
          \<and> snd (call_func i g as oc m) = idMap_delete j (m\<lparr>trace := trace m @ [Call i f as]\<rparr>))"
  by (cases g; cases oc) (auto simp: Let_def)

lemma onmessage_cases:
  "snd (onmessage msg oc m) = m \<and> map_of (idMap m) (msg_id msg) = None
   \<or> (\<exists>xs j. snd (onmessage msg oc m)
               = m\<lparr>idMap := AList.delete j (idMap m), trace := trace m @ xs\<rparr>
          \<and> map_of (idMap m) (msg_id msg) \<noteq> None
          \<and> posts_of xs = [] \<and> (\<forall>i. i \<noteq> msg_id msg \<longrightarrow> filter (called i) xs = []))
   \<or> (\<exists>xs. snd (onmessage msg oc m) = m\<lparr>trace := trace m @ xs\<rparr>
          \<and> map_of (idMap m) (msg_id msg) \<noteq> None
          \<and> posts_of xs = [] \<and> (\<forall>i. i \<noteq> msg_id msg \<longrightarrow> filter (called i) xs = []))"
proof (cases "map_of (idMap m) (msg_id msg)")
  case None
  then show ?thesis by (simp add: onmessage_def)
next
  case (Some t)
  show ?thesis
  proof (cases msg)
    case (InvokeMessage i)
    with Some call_func_cases [of i "t_func t" "t_args t" oc m] show ?thesis
      by (auto simp: onmessage_def idMap_delete_def)
  next
    case (ClearMessage i)
    with Some show ?thesis
      by (auto simp: onmessage_def idMap_delete_def)
  qed
qed


lemma api_set_call:
  "api (set_call ty f d as) m = (Some (seq m), snd (setTimer ty f d as m))"
  by (cases ty) (simp_all add: set_call_def split_beta fst_setTimer)

lemma api_clear_call: "api (clear_call ty i) m = (None, clearTimer ty i m)"
  by (cases ty) (simp_all add: clear_call_def)

lemma api_cases:
  "(\<exists>ty f d as. c = set_call ty f d as) \<or> (\<exists>ty i. c = clear_call ty i) \<or> c = Call_terminate"
proof (cases c)
  case (Call_setTimeout f d as)
  then have "c = set_call T_setTimeout f d as" by (simp add: set_call_def)
  then show ?thesis by blast
next
  case (Call_setInterval f d as)
  then have "c = set_call T_setInterval f d as" by (simp add: set_call_def)
  then show ?thesis by blast
next
  case (Call_clearTimeout i)
  then have "c = clear_call T_clearTimeout i" by (simp add: clear_call_def)
  then show ?thesis by blast
next
  case (Call_clearInterval i)
  then have "c = clear_call T_clearInterval i" by (simp add: clear_call_def)
  then show ?thesis by blast
next
  case Call_terminate
  then show ?thesis by simp
qed

lemma list_all_delete: "list_all P al \<Longrightarrow> list_all P (AList.delete k al)"
  by (simp add: AList.delete_eq list_all_iff)

lemma list_all_update:
  "list_all P al \<Longrightarrow> P (k, v) \<Longrightarrow> list_all P (AList.update k v al)"
  by (induction al) auto

lemma list_all_mono': "list_all P xs \<Longrightarrow> (\<And>x. P x \<Longrightarrow> Q x) \<Longrightarrow> list_all Q xs"
  by (simp add: list_all_iff)

lemma main_inv_setTimer:
  assumes "main_inv m"
  shows "main_inv (snd (setTimer ty f d as m))"
proof -
  let ?t = "\<lparr>t_id = seq m, t_type = ty,
          t_func = (if ty = T_setTimeout then Call_then_delete f (seq m) else Call_only f),
          t_duration = (case d of None \<Rightarrow> 0 | Some x \<Rightarrow> x), t_args = as\<rparr>"
  from assms have a: "list_all (\<lambda>e. fst e < seq m) (idMap m)"
    and b: "distinct (map fst (idMap m))"
    and c: "list_all stored_ok (idMap m)"
    and d: "list_all (call_below (seq m)) (trace m)"
    by (simp_all add: main_inv_def)
  from a have a': "list_all (\<lambda>e. fst e < Suc (seq m)) (idMap m)"
    by (rule list_all_mono') simp
  have 1: "list_all (\<lambda>e. fst e < Suc (seq m)) (AList.update (seq m) ?t (idMap m))"
    using a' by (rule list_all_update) simp
  have 2: "distinct (map fst (AList.update (seq m) ?t (idMap m)))"
    using b by (rule AList.distinct_update)
  have "stored_ok (seq m, ?t)" by (cases ty) simp_all
  with c have 3: "list_all stored_ok (AList.update (seq m) ?t (idMap m))"
    by (rule list_all_update)
  from d have 4: "list_all (call_below (Suc (seq m))) (trace m)"
  proof (rule list_all_mono')
    fix x :: "('a, 'b) effect" assume "call_below (seq m) x"
    then show "call_below (Suc (seq m)) x" by (cases x) simp_all
  qed
  show ?thesis
    unfolding main_inv_def
    using 1 2 3 4 by (simp add: seq_setTimer idMap_setTimer trace_setTimer)
qed

lemma main_inv_clearTimer: "main_inv m \<Longrightarrow> main_inv (clearTimer ty i m)"
  unfolding main_inv_def
  by (simp add: seq_clearTimer idMap_clearTimer trace_clearTimer AList.distinct_delete
        list_all_delete)


lemma seq_onmessage: "seq (snd (onmessage msg oc m)) = seq m"
  using onmessage_cases [of msg oc m] by auto

lemma main_inv_onmessage:
  assumes "main_inv m"
  shows "main_inv (snd (onmessage msg oc m))"
proof -
  from assms have d: "list_all (call_below (seq m)) (trace m)"
    by (simp add: main_inv_def)
  have known: "msg_id msg < seq m" if "map_of (idMap m) (msg_id msg) \<noteq> None"
  proof -
    from that obtain t where "(msg_id msg, t) \<in> set (idMap m)"
      by (auto dest: map_of_SomeD)
    with assms show ?thesis by (auto simp: main_inv_def list_all_iff)
  qed
  have tr: "list_all (call_below (seq m)) xs"
    if "\<forall>i. i \<noteq> msg_id msg \<longrightarrow> filter (called i) xs = []" "msg_id msg < seq m" for xs :: "('a, 'b) effect list"
    unfolding list_all_iff
  proof
    fix e assume e: "e \<in> set xs"
    show "call_below (seq m) e"
    proof (cases e)
      case (Call j f as)
      have "j = msg_id msg"
      proof (rule ccontr)
        assume "j \<noteq> msg_id msg"
        with that(1) have "filter (called j) xs = []" by blast
        with e Call show False by (auto simp: filter_empty_conv)
      qed
      with Call that(2) show ?thesis by simp
    qed simp_all
  qed
  from onmessage_cases [of msg oc m] show ?thesis
  proof (elim disjE exE conjE)
    assume "snd (onmessage msg oc m) = m"
    with assms show ?thesis by simp
  next
    fix xs j
    assume "snd (onmessage msg oc m) = m\<lparr>idMap := AList.delete j (idMap m), trace := trace m @ xs\<rparr>"
      "map_of (idMap m) (msg_id msg) \<noteq> None"
      "\<forall>i. i \<noteq> msg_id msg \<longrightarrow> filter (called i) xs = []"
    with assms tr [of xs] known show ?thesis
      by (simp add: main_inv_def AList.distinct_delete list_all_delete)
  next
    fix xs
    assume "snd (onmessage msg oc m) = m\<lparr>trace := trace m @ xs\<rparr>"
      "map_of (idMap m) (msg_id msg) \<noteq> None"
      "\<forall>i. i \<noteq> msg_id msg \<longrightarrow> filter (called i) xs = []"
    with assms tr [of xs] known show ?thesis
      by (simp add: main_inv_def)
  qed
qed

lemma main_inv_api: "main_inv m \<Longrightarrow> main_inv (snd (api c m))"
  using api_cases [of c]
  by (auto simp: api_set_call api_clear_call main_inv_setTimer main_inv_clearTimer)

lemma main_inv_step: "main_inv (main s) \<Longrightarrow> main_inv (main (step e s))"
  by (cases e) (auto simp: main_inv_api main_inv_onmessage Let_def split: list.splits)

lemma main_inv_run: "main_inv (main s) \<Longrightarrow> main_inv (main (run es s))"
  by (induction es arbitrary: s) (simp_all add: main_inv_step)

lemma main_inv_init: "main_inv (main init)"
  by (simp add: main_inv_def init_def)

lemma main_inv_reachable: "main_inv (main (run es init))"
  by (rule main_inv_run [OF main_inv_init])

lemma run_append: "run (es @ es') s = run es' (run es s)"
  by (induction es arbitrary: s) simp_all

lemma seq_api: "seq (snd (api c m)) = seq m + (if scheduling c then 1 else 0)"
  by (cases c) (simp_all add: split_beta seq_setTimer seq_clearTimer)

lemma seq_step: "seq (main (step e s)) = seq (main s) + (if schedules e then 1 else 0)"
  by (cases e) (simp_all add: seq_api seq_onmessage Let_def split: list.splits)

lemma result_step:
  "result e s = (if schedules e then Some (seq (main s)) else None)"
proof (cases e)
  case (Api c)
  then show ?thesis by (cases c) (simp_all add: split_beta fst_setTimer)
qed simp_all

lemma returned_run:
  "returned es s = [seq (main s) ..< seq (main s) + length (filter schedules es)]"
proof (induction es arbitrary: s)
  case Nil
  then show ?case by simp
next
  case (Cons e es)
  show ?case
  proof (cases "schedules e")
    case True
    let ?n = "length (filter schedules es)"
    have "[seq (main s) ..< seq (main s) + Suc ?n]
            = seq (main s) # [Suc (seq (main s)) ..< seq (main s) + Suc ?n]"
      by (rule upt_conv_Cons) simp
    with True show ?thesis
      by (simp add: Cons.IH result_step seq_step)
  next
    case False
    then show ?thesis
      by (simp add: Cons.IH result_step seq_step)
  qed
qed

lemma seq_run: "seq (main (run es s)) = seq (main s) + length (filter schedules es)"
  by (induction es arbitrary: s) (simp_all add: seq_step)

lemma stored_ok_lookup:
  assumes "main_inv m" "map_of (idMap m) i = Some t"
  shows "stored_ok (i, t)"
proof -
  from assms(2) have "(i, t) \<in> set (idMap m)" by (rule map_of_SomeD)
  moreover from assms(1) have "\<forall>e \<in> set (idMap m). stored_ok e"
    by (simp add: main_inv_def list_all_iff)
  ultimately show ?thesis by blast
qed

lemma onmessage_invoke:
  assumes "stored_ok (i, t)" "map_of (idMap m) i = Some t"
  shows "onmessage (InvokeMessage i) oc m
         = (oc, m\<lparr>idMap := (if t_type t = T_setTimeout \<and> oc = Returns
                              then AList.delete i (idMap m) else idMap m),
                   trace := trace m @ Call i (user_func (t_func t)) (t_args t)
                            # (if t_type t = T_setTimeout \<and> oc = Returns
                               then [Reg_delete i] else [])\<rparr>)"
  using assms
  by (cases "t_func t"; cases oc) (auto simp: onmessage_def idMap_delete_def)

lemma invocations_api: "invocations i (snd (api c m)) = invocations i m"
  using api_cases [of c]
  by (auto simp: invocations_def api_set_call api_clear_call trace_setTimer trace_clearTimer)

lemma invocations_step:
  "\<not> main_receives e \<Longrightarrow> invocations i (main (step e s)) = invocations i (main s)"
  by (cases e) (simp_all add: invocations_api Let_def split: list.splits)

lemma invocations_run:
  "list_all (\<lambda>e. \<not> main_receives e) ws
    \<Longrightarrow> invocations i (main (run ws s)) = invocations i (main s)"
  by (induction ws arbitrary: s) (simp_all add: invocations_step)

lemma gone_setTimer: "gone i m \<Longrightarrow> gone i (snd (setTimer ty f d as m))"
  by (simp add: gone_def invocations_def seq_setTimer idMap_setTimer trace_setTimer
        AList.update_conv')

lemma gone_clearTimer: "gone i m \<Longrightarrow> gone i (clearTimer ty j m)"
  by (simp add: gone_def invocations_def seq_clearTimer idMap_clearTimer trace_clearTimer
        AList.delete_conv')

lemma gone_onmessage:
  assumes "gone i m"
  shows "gone i (snd (onmessage msg oc m))"
proof (cases "msg_id msg = i")
  case True
  with assms have "onmessage msg oc m = (Returns, m)"
    by (simp add: gone_def onmessage_def)
  with assms show ?thesis by simp
next
  case False
  with onmessage_cases [of msg oc m] assms show ?thesis
    by (auto simp: gone_def invocations_def AList.delete_conv')
qed

lemma gone_api: "gone i m \<Longrightarrow> gone i (snd (api c m))"
  using api_cases [of c]
  by (auto simp: api_set_call api_clear_call gone_setTimer gone_clearTimer)

lemma gone_step: "gone i (main s) \<Longrightarrow> gone i (main (step e s))"
  by (cases e) (auto simp: gone_api gone_onmessage Let_def split: list.splits)

lemma gone_run: "gone i (main s) \<Longrightarrow> gone i (main (run es s))"
  by (induction es arbitrary: s) (simp_all add: gone_step)

lemma fresh_not_invoked:
  assumes "main_inv m"
  shows "invocations (seq m) m = []"
proof -
  from assms have "list_all (call_below (seq m)) (trace m)" by (simp add: main_inv_def)
  then have "\<not> called (seq m) e" if "e \<in> set (trace m)" for e
    using that by (cases e) (auto simp: list_all_iff)
  then show ?thesis by (simp add: invocations_def filter_empty_conv)
qed

lemma gone_after_clear:
  "i < seq m \<Longrightarrow> invocations i m = [] \<Longrightarrow> gone i (clearTimer ty i m)"
  by (simp add: gone_def seq_clearTimer idMap_clearTimer AList.delete_conv' invocations_def
        trace_clearTimer)

lemma main_step_clear: "main (step (Api (clear_call ty i)) s) = clearTimer ty i (main s)"
  by (simp add: api_clear_call Let_def)

lemma main_step_set:
  "main (step (Api (set_call ty f d as)) s) = snd (setTimer ty f d as (main s))"
  by (simp add: api_set_call Let_def)

lemma createWorkerTimer_result:
  "snd (createWorkerTimer host :: ('e, ('f, 'a) sys) attempt)
     = (case snd (createWorker host) of Inl e \<Rightarrow> Inl e | Inr w \<Rightarrow> Inr init)"
  by (simp add: createWorkerTimer_def and_then_def split: sum.splits)

lemma bare_existing:
  "defaultWorkerTimer M = Some inst
    \<Longrightarrow> bare c host M
        = (Inr (result (Api c) inst), M\<lparr>defaultWorkerTimer := Some (step (Api c) inst)\<rparr>)"
  by (simp add: bare_def getWorkerTimer_def)

lemma bare_first:
  "defaultWorkerTimer M = None \<Longrightarrow> snd (createWorker host) = Inr w
    \<Longrightarrow> bare c host M
        = (Inr (result (Api c) init),
           M\<lparr>defaultWorkerTimer := Some (step (Api c) init), created := created M + 1\<rparr>)"
  by (simp add: bare_def getWorkerTimer_def createWorkerTimer_result)

lemma bare_failing:
  "defaultWorkerTimer M = None \<Longrightarrow> snd (createWorker host) = Inl e
    \<Longrightarrow> bare c host M = (Inl e, M)"
  by (simp add: bare_def getWorkerTimer_def createWorkerTimer_result)

lemma terminated_step: "terminated s \<Longrightarrow> terminated (step e s)"
  by (cases e) (simp_all add: Let_def split: list.splits)

lemma module_step_cases:
  "defaultWorkerTimer M = None
     \<and> (module_step ev M = M
        \<or> (\<exists>inst. module_step ev M = M\<lparr>defaultWorkerTimer := Some inst, created := created M + 1\<rparr>))
   \<or> (\<exists>inst e. defaultWorkerTimer M = Some inst
        \<and> module_step ev M = M\<lparr>defaultWorkerTimer := Some (step e inst)\<rparr>)"
proof (cases "defaultWorkerTimer M")
  case None
  show ?thesis
  proof (cases ev)
    case (Bare c host)
    show ?thesis
    proof (cases "snd (createWorker host)")
      case (Inl e)
      with None Bare show ?thesis by (simp add: bare_failing)
    next
      case (Inr w)
      with None Bare
      have "module_step ev M
              = M\<lparr>defaultWorkerTimer := Some (step (Api c) init), created := created M + 1\<rparr>"
        by (simp add: bare_first del: step.simps)
      with None show ?thesis by blast
    qed
  next
    case (Instance e)
    with None show ?thesis by simp
  qed
next
  case (Some inst)
  show ?thesis
  proof (cases ev)
    case (Bare c host)
    with Some have "module_step ev M = M\<lparr>defaultWorkerTimer := Some (step (Api c) inst)\<rparr>"
      by (simp add: bare_existing)
    with Some show ?thesis by blast
  next
    case (Instance e)
    with Some have "module_step ev M = M\<lparr>defaultWorkerTimer := Some (step e inst)\<rparr>"
      by simp
    with Some show ?thesis by blast
  qed
qed

lemma created_once_step: "created_once M \<Longrightarrow> created_once (module_step ev M)"
  using module_step_cases [of M ev] by (auto simp: created_once_def)

lemma created_once_run: "created_once M \<Longrightarrow> created_once (module_run evs M)"
  by (induction evs arbitrary: M) (simp_all add: created_once_step)

lemma default_terminated_step:
  "default_terminated M \<Longrightarrow> default_terminated (module_step ev M)"
  using module_step_cases [of M ev]
  by (auto simp: default_terminated_def terminated_step)

lemma default_terminated_run:
  "default_terminated M \<Longrightarrow> default_terminated (module_run evs M)"
  by (induction evs arbitrary: M) (simp_all add: default_terminated_step)

lemma kept_step:
  "defaultWorkerTimer M \<noteq> None
    \<Longrightarrow> defaultWorkerTimer (module_step ev M) \<noteq> None \<and> created (module_step ev M) = created M"
  using module_step_cases [of M ev] by auto

lemma kept_run:
  "defaultWorkerTimer M \<noteq> None
    \<Longrightarrow> defaultWorkerTimer (module_run evs M) \<noteq> None \<and> created (module_run evs M) = created M"
proof (induction evs arbitrary: M)
  case Nil
  then show ?case by simp
next
  case (Cons ev evs)
  from kept_step [OF Cons.prems, of ev] Cons.IH [of "module_step ev M"] show ?case
    by simp
qed

lemma set_ids_append: "set_ids (q @ q') = set_ids q @ set_ids q'"
  by (induction q rule: set_ids.induct) simp_all

lemma update_fresh: "k \<notin> fst ` set al \<Longrightarrow> AList.update k v al = al @ [(k, v)]"
  by (induction al) auto

lemma set_delete: "set (AList.delete k al) = {p \<in> set al. fst p \<noteq> k}"
  by (auto simp: AList.delete_eq)

lemma remove_pair:
  assumes "distinct (map fst ts)" "distinct (map timer_id ts)"
    and "set al = (\<lambda>e. (timer_id e, fst e)) ` set ts"
    and "(h, t) \<in> set ts" "timer_id (h, t) = i"
  shows "set (AList.delete i al) = (\<lambda>e. (timer_id e, fst e)) ` set (AList.delete h ts)"
proof -
  from assms(2) have inj: "inj_on timer_id (set ts)" by (simp add: distinct_map)
  have a: "timer_id e = i" if "e \<in> set ts" "fst e = h" for e
  proof -
    from that have "(h, snd e) \<in> set ts" by auto
    from assms(1) this assms(4) have "snd e = t" by (rule eq_key_imp_eq_value)
    with that(2) have "e = (h, t)" by (simp add: prod_eq_iff)
    with assms(5) show ?thesis by simp
  qed
  have b: "fst e = h" if "e \<in> set ts" "timer_id e = i" for e
  proof -
    from that(2) assms(5) have "timer_id e = timer_id (h, t)" by simp
    with inj have "e = (h, t)" using that(1) assms(4) by (rule inj_onD)
    then show ?thesis by simp
  qed
  show ?thesis
  proof (rule set_eqI)
    fix p
    show "p \<in> set (AList.delete i al)
          \<longleftrightarrow> p \<in> (\<lambda>e. (timer_id e, fst e)) ` set (AList.delete h ts)"
    proof
      assume "p \<in> set (AList.delete i al)"
      then have p: "p \<in> set al" "fst p \<noteq> i" by (simp_all add: set_delete)
      from p(1) assms(3) obtain e where e: "e \<in> set ts" "p = (timer_id e, fst e)"
        by auto
      with p(2) have "timer_id e \<noteq> i" by simp
      with a e(1) have "fst e \<noteq> h" by blast
      with e(1) have "e \<in> set (AList.delete h ts)" by (simp add: set_delete)
      with e(2) show "p \<in> (\<lambda>e. (timer_id e, fst e)) ` set (AList.delete h ts)"
        by (rule image_eqI)
    next
      assume "p \<in> (\<lambda>e. (timer_id e, fst e)) ` set (AList.delete h ts)"
      then obtain e where e: "e \<in> set (AList.delete h ts)" "p = (timer_id e, fst e)"
        by (rule imageE)
      from e(1) have ts: "e \<in> set ts" "fst e \<noteq> h" by (simp_all add: set_delete)
      with b have "timer_id e \<noteq> i" by blast
      moreover from ts(1) e(2) assms(3) have "p \<in> set al" by simp
      ultimately show "p \<in> set (AList.delete i al)"
        using e(2) by (simp add: set_delete)
    qed
  qed
qed

lemma distinct_map_delete: "distinct (map f al) \<Longrightarrow> distinct (map f (AList.delete k al))"
  by (simp add: AList.delete_eq distinct_map_filter)

lemma worker_ok_remove:
  assumes "worker_ok w" "(h, t) \<in> set (timers w)" "timer_id (h, t) = i"
  shows "worker_ok (w\<lparr>timers := AList.delete h (timers w),
                      worker_idMap := AList.delete i (worker_idMap w)\<rparr>)"
  using assms remove_pair [of "timers w" "worker_idMap w" h t i]
  by (simp add: worker_ok_def distinct_map_delete list_all_delete)

lemma worker_ok_posted: "worker_ok (w\<lparr>posted := p\<rparr>) = worker_ok w"
  by (simp add: worker_ok_def)

lemma worker_ok_set:
  assumes "worker_ok w" "h \<notin> fst ` set (timers w)" "i \<notin> timer_id ` set (timers w)"
  shows "worker_ok (worker_onmessage (SetTimerMessage i ty d) h w)"
proof -
  let ?cb = "if ty = T_setTimeout then Invoke_then_delete i else Invoke_only i"
  let ?e = "(h, \<lparr>n_prim = ty, n_callback = ?cb, n_delay = d\<rparr>)"
  have id: "timer_id ?e = i" by (simp add: timer_id_def)
  have ok: "timer_ok ?e" by (cases ty) (simp_all add: timer_ok_def)
  from assms(1,3) have "i \<notin> fst ` set (worker_idMap w)"
    by (force simp: worker_ok_def)
  then have upd: "AList.update i h (worker_idMap w) = worker_idMap w @ [(i, h)]"
    by (rule update_fresh)
  have eq: "worker_onmessage (SetTimerMessage i ty d) h w
          = w\<lparr>timers := timers w @ [?e], worker_idMap := worker_idMap w @ [(i, h)]\<rparr>"
    by (simp add: worker_onmessage_def native_set_def upd)
  from \<open>i \<notin> fst ` set (worker_idMap w)\<close> assms id ok show ?thesis
    unfolding eq by (auto simp: worker_ok_def)
qed

lemma worker_ok_clear:
  assumes "worker_ok w"
  shows "worker_ok (worker_onmessage (ClearTimerMessage i ty) h w)"
proof (cases "map_of (worker_idMap w) i")
  case None
  then have "i \<notin> fst ` set (worker_idMap w)" by (simp add: map_of_eq_None_iff)
  then have "AList.delete i (worker_idMap w) = worker_idMap w" by simp
  with None assms show ?thesis
    by (simp add: worker_onmessage_def native_clear_def)
next
  case (Some h')
  then have "(i, h') \<in> set (worker_idMap w)" by (rule map_of_SomeD)
  with assms obtain e where e: "e \<in> set (timers w)" "timer_id e = i" "fst e = h'"
    by (auto simp: worker_ok_def)
  then have "(h', snd e) \<in> set (timers w)" "timer_id (h', snd e) = i"
    by (simp_all add: timer_id_def) (metis prod.collapse)
  with assms have "worker_ok (w\<lparr>timers := AList.delete h' (timers w),
                      worker_idMap := AList.delete i (worker_idMap w)\<rparr>)"
    by (rule worker_ok_remove)
  with Some show ?thesis
    by (simp add: worker_onmessage_def native_clear_def)
qed

lemma worker_ok_fires:
  assumes "worker_ok w"
  shows "worker_ok (native_fires h w)"
proof (cases "map_of (timers w) h")
  case None
  with assms show ?thesis by (simp add: native_fires_def)
next
  case (Some t)
  then have mem: "(h, t) \<in> set (timers w)" by (rule map_of_SomeD)
  with assms have ok: "timer_ok (h, t)" by (auto simp: worker_ok_def list_all_iff)
  show ?thesis
  proof (cases "n_callback t")
    case (Invoke_then_delete i)
    with ok have prim: "n_prim t = T_setTimeout" by (simp add: timer_ok_def)
    from Invoke_then_delete have "timer_id (h, t) = i" by (simp add: timer_id_def)
    with assms mem have "worker_ok (w\<lparr>timers := AList.delete h (timers w),
                      worker_idMap := AList.delete i (worker_idMap w)\<rparr>)"
      by (rule worker_ok_remove)
    with Some Invoke_then_delete prim show ?thesis
      by (simp add: native_fires_def worker_ok_def)
  next
    case (Invoke_only i)
    with ok have "n_prim t = T_setInterval" by (simp add: timer_ok_def)
    with Some Invoke_only assms show ?thesis
      by (simp add: native_fires_def worker_ok_def)
  qed
qed

lemma timers_clear_subset:
  "set (timers (worker_onmessage (ClearTimerMessage i ty) h w)) \<subseteq> set (timers w)"
  by (auto simp: worker_onmessage_def native_clear_def AList.delete_eq split: option.splits)

lemma timers_fires_subset: "set (timers (native_fires h w)) \<subseteq> set (timers w)"
proof (cases "map_of (timers w) h")
  case None
  then show ?thesis by (simp add: native_fires_def)
next
  case (Some t)
  then show ?thesis
    by (cases "n_callback t") (auto simp: native_fires_def AList.delete_eq)
qed


lemma chan_ok_timers:
  "chan_ok n q w \<Longrightarrow> set (timers w') \<subseteq> set (timers w) \<Longrightarrow> chan_ok n q w'"
  by (auto simp: chan_ok_def list_all_iff)

lemma chan_ok_tail:
  assumes "chan_ok n (msg # q) w"
  shows "chan_ok n q w"
proof (cases msg)
  case (SetTimerMessage i ty d)
  with assms show ?thesis by (auto simp: chan_ok_def list_all_iff)
next
  case (ClearTimerMessage i ty)
  with assms show ?thesis by (simp add: chan_ok_def)
qed

lemma chan_ok_head_fresh:
  assumes "chan_ok n (SetTimerMessage i ty d # q) w"
  shows "i \<notin> timer_id ` set (timers w)"
  using assms by (auto simp: chan_ok_def list_all_iff)

lemma timers_set:
  "timers (worker_onmessage (SetTimerMessage i ty d) h w)
     = timers w @ [(h, \<lparr>n_prim = ty,
                         n_callback = (if ty = T_setTimeout then Invoke_then_delete i
                                       else Invoke_only i),
                         n_delay = d\<rparr>)]"
  by (simp add: worker_onmessage_def native_set_def)

lemma chan_ok_set:
  assumes "chan_ok n (SetTimerMessage i ty d # q) w"
  shows "chan_ok n q (worker_onmessage (SetTimerMessage i ty d) h w)"
  using assms
  by (auto simp: chan_ok_def list_all_iff timers_set timer_id_def)

lemma chan_ok_schedule:
  assumes "chan_ok n q w"
  shows "chan_ok (Suc n) (q @ [SetTimerMessage n ty d]) w"
  using assms
  by (auto simp: chan_ok_def list_all_iff set_ids_append sorted_wrt_append less_Suc_eq)

lemma chan_ok_cancel:
  "chan_ok n q w \<Longrightarrow> chan_ok n (q @ [ClearTimerMessage i ty]) w"
  by (simp add: chan_ok_def set_ids_append)

lemma new_posts_same: "new_posts m m = []"
  by (simp add: new_posts_def)

lemma lockstep_inv_api:
  assumes "lockstep_inv s"
  shows "lockstep_inv (step (Api c) s)"
proof -
  from assms have w: "worker_ok (worker s)"
    and ch: "chan_ok (seq (main s)) (to_worker s) (worker s)"
    by (simp_all add: lockstep_inv_def)
  from api_cases [of c] show ?thesis
  proof (elim disjE exE)
    fix ty f d as
    assume "c = set_call ty f d as"
    with w chan_ok_schedule [OF ch] show ?thesis
      by (simp add: lockstep_inv_def api_set_call seq_setTimer
            new_posts_append [OF trace_setTimer])
  next
    fix ty i
    assume "c = clear_call ty i"
    with w chan_ok_cancel [OF ch] show ?thesis
      by (simp add: lockstep_inv_def api_clear_call seq_clearTimer
            new_posts_append [OF trace_clearTimer])
  next
    assume "c = Call_terminate"
    with w ch show ?thesis
      by (simp add: lockstep_inv_def new_posts_same)
  qed
qed

lemma lockstep_inv_worker_receives:
  assumes "lockstep_inv s"
  shows "lockstep_inv (step (Worker_receives h) s)"
proof (cases "terminated s \<or> to_worker s = []")
  case True
  with assms show ?thesis by (auto split: list.splits)
next
  case False
  then obtain msg q where q: "to_worker s = msg # q" and nt: "\<not> terminated s"
    by (cases "to_worker s") auto
  from assms q have w: "worker_ok (worker s)"
    and ch: "chan_ok (seq (main s)) (msg # q) (worker s)"
    by (simp_all add: lockstep_inv_def)
  show ?thesis
  proof (cases msg)
    case (SetTimerMessage i ty d)
    show ?thesis
    proof (cases "h \<in> fst ` set (timers (worker s))")
      case True
      with assms q nt SetTimerMessage show ?thesis by simp
    next
      case False
      from ch SetTimerMessage have "i \<notin> timer_id ` set (timers (worker s))"
        by (auto dest: chan_ok_head_fresh)
      with w False have "worker_ok (worker_onmessage (SetTimerMessage i ty d) h (worker s))"
        by (rule worker_ok_set)
      moreover from ch SetTimerMessage
      have "chan_ok (seq (main s)) q (worker_onmessage (SetTimerMessage i ty d) h (worker s))"
        by (auto intro: chan_ok_set)
      ultimately show ?thesis
        using q nt SetTimerMessage False by (simp add: lockstep_inv_def)
    qed
  next
    case (ClearTimerMessage i ty)
    from w have "worker_ok (worker_onmessage (ClearTimerMessage i ty) h (worker s))"
      by (rule worker_ok_clear)
    moreover from ch have "chan_ok (seq (main s)) q (worker s)"
      by (rule chan_ok_tail)
    then have "chan_ok (seq (main s)) q (worker_onmessage (ClearTimerMessage i ty) h (worker s))"
      using timers_clear_subset by (rule chan_ok_timers)
    ultimately show ?thesis
      using q nt ClearTimerMessage by (simp add: lockstep_inv_def)
  qed
qed

lemma lockstep_inv_native_fires:
  assumes "lockstep_inv s"
  shows "lockstep_inv (step (Native_fires h) s)"
proof (cases "terminated s")
  case True
  with assms show ?thesis by simp
next
  case False
  from assms have "worker_ok (native_fires h (worker s))"
    by (simp add: lockstep_inv_def worker_ok_fires)
  moreover from assms have "chan_ok (seq (main s)) (to_worker s) (native_fires h (worker s))"
    using timers_fires_subset by (auto simp: lockstep_inv_def intro: chan_ok_timers)
  ultimately show ?thesis
    using False by (simp add: lockstep_inv_def Let_def)
qed

lemma lockstep_inv_main_receives:
  "lockstep_inv s \<Longrightarrow> lockstep_inv (step (Main_receives oc) s)"
  by (simp add: lockstep_inv_def seq_onmessage split: list.splits)

lemma lockstep_inv_step: "lockstep_inv s \<Longrightarrow> lockstep_inv (step e s)"
  by (cases e)
     (simp_all only: lockstep_inv_api lockstep_inv_worker_receives lockstep_inv_native_fires
        lockstep_inv_main_receives)

lemma lockstep_inv_run: "lockstep_inv s \<Longrightarrow> lockstep_inv (run es s)"
  by (induction es arbitrary: s) (simp_all add: lockstep_inv_step)

lemma lockstep_inv_init: "lockstep_inv init"
  by (simp add: lockstep_inv_def worker_ok_def chan_ok_def init_def)

lemma lockstep_inv_reachable: "lockstep_inv (run es init)"
  by (rule lockstep_inv_run [OF lockstep_inv_init])

lemma at_most_one:
  "distinct (map f xs) \<Longrightarrow> length (filter (\<lambda>e. f e = k) xs) \<le> 1"
proof (induction xs)
  case Nil
  then show ?case by simp
next
  case (Cons x xs)
  show ?case
  proof (cases "f x = k")
    case True
    with Cons.prems have "filter (\<lambda>e. f e = k) xs = []"
      by (auto simp: filter_empty_conv image_iff)
    with True show ?thesis by simp
  next
    case False
    with Cons show ?thesis by simp
  qed
qed

lemma handle_of_id:
  assumes "worker_ok w"
  shows "map_of (worker_idMap w) i = Some h
         \<longleftrightarrow> (\<exists>t. map_of (timers w) h = Some t \<and> callback_id (n_callback t) = i)"
proof -
  from assms have d1: "distinct (map fst (timers w))"
    and d2: "distinct (map fst (worker_idMap w))"
    and eq: "set (worker_idMap w) = (\<lambda>e. (timer_id e, fst e)) ` set (timers w)"
    by (simp_all add: worker_ok_def)
  have "map_of (worker_idMap w) i = Some h \<longleftrightarrow> (i, h) \<in> set (worker_idMap w)"
    using d2 by (auto dest: map_of_SomeD)
  also have "\<dots> \<longleftrightarrow> (\<exists>t. (h, t) \<in> set (timers w) \<and> timer_id (h, t) = i)"
    unfolding eq by force
  also have "\<dots> \<longleftrightarrow> (\<exists>t. map_of (timers w) h = Some t \<and> callback_id (n_callback t) = i)"
    using d1 by (auto simp: timer_id_def dest: map_of_SomeD)
  finally show ?thesis .
qed

lemma step_main_local:
  "main s1 = main s2 \<Longrightarrow> to_main s1 = to_main s2 \<Longrightarrow> main (step e s1) = main (step e s2)"
  by (cases e) (simp_all add: Let_def split: list.splits)

lemma step_worker_local:
  "worker s1 = worker s2 \<Longrightarrow> to_worker s1 = to_worker s2 \<Longrightarrow> terminated s1 = terminated s2
    \<Longrightarrow> worker (step e s1) = worker (step e s2)"
proof (cases e)
  case (Api c)
  assume "worker s1 = worker s2"
  with Api show ?thesis by (simp add: Let_def)
qed (simp_all add: Let_def split: list.splits)

lemma main_frame:
  "main (step (Worker_receives h) s) = main s" "main (step (Native_fires h) s) = main s"
  by (simp_all add: Let_def split: list.splits)

lemma worker_frame:
  "worker (step (Api c) s) = worker s" "worker (step (Main_receives oc) s) = worker s"
  by (simp_all add: Let_def split: list.splits)

lemma idle_frame:
  "to_main s = [] \<Longrightarrow> main (step (Main_receives oc) s) = main s"
  "to_worker s = [] \<Longrightarrow> worker (step (Worker_receives h) s) = worker s"
  by simp_all

lemma worker_idMap_fires:
  assumes "worker_ok w"
  shows "worker_idMap (native_fires h w)
         = (case map_of (timers w) h of
              None \<Rightarrow> worker_idMap w
            | Some t \<Rightarrow> if n_prim t = T_setTimeout
                        then AList.delete (callback_id (n_callback t)) (worker_idMap w)
                        else worker_idMap w)"
proof (cases "map_of (timers w) h")
  case None
  then show ?thesis by (simp add: native_fires_def)
next
  case (Some t)
  then have "(h, t) \<in> set (timers w)" by (rule map_of_SomeD)
  with assms have ok: "timer_ok (h, t)" by (auto simp: worker_ok_def list_all_iff)
  show ?thesis
  proof (cases "n_callback t")
    case (Invoke_then_delete i)
    with ok Some show ?thesis by (simp add: native_fires_def timer_ok_def)
  next
    case (Invoke_only i)
    with ok Some show ?thesis by (simp add: native_fires_def timer_ok_def)
  qed
qed

lemma fire_changes_map:
  assumes "worker_ok (worker s)"
    and "worker_idMap (worker (step (Native_fires h) s)) \<noteq> worker_idMap (worker s)"
  shows "\<exists>t. map_of (timers (worker s)) h = Some t \<and> n_prim t = T_setTimeout
           \<and> worker_idMap (worker (step (Native_fires h) s))
             = AList.delete (callback_id (n_callback t)) (worker_idMap (worker s))"
proof (cases "terminated s")
  case True
  with assms(2) show ?thesis by simp
next
  case False
  then have eq: "worker_idMap (worker (step (Native_fires h) s))
                 = worker_idMap (native_fires h (worker s))"
    by (simp add: Let_def)
  from assms(2) show ?thesis
    unfolding eq worker_idMap_fires [OF assms(1)]
    by (auto split: option.splits if_splits)
qed

lemma clearTimer_facts:
  "trace (clearTimer ty i m) = trace m @ [Post (ClearTimerMessage i ty), Reg_delete i]
   \<and> seq (clearTimer ty i m) = seq m
   \<and> map_of (idMap (clearTimer ty i m)) = (map_of (idMap m))(i := None)
   \<and> (map_of (idMap m) i = None \<longrightarrow> idMap (clearTimer ty i m) = idMap m)
   \<and> idMap (clearTimer ty' i (clearTimer ty i m)) = idMap (clearTimer ty i m)
   \<and> worker_onmessage (ClearTimerMessage i ty') h'
        (worker_onmessage (ClearTimerMessage i ty) h w)
      = worker_onmessage (ClearTimerMessage i ty) h w
   \<and> to_worker (step (Api (clear_call ty i)) s) = to_worker s @ [ClearTimerMessage i ty]
   \<and> main (step (Api (clear_call ty i)) s) = clearTimer ty i (main s)"
proof (intro conjI)
  show "to_worker (step (Api (clear_call ty i)) s) = to_worker s @ [ClearTimerMessage i ty]"
    by (simp add: api_clear_call Let_def new_posts_append [OF trace_clearTimer])
  show "main (step (Api (clear_call ty i)) s) = clearTimer ty i (main s)"
    by (rule main_step_clear)
  show "map_of (idMap m) i = None \<longrightarrow> idMap (clearTimer ty i m) = idMap m"
    by (simp add: idMap_clearTimer map_of_eq_None_iff)
  show "worker_onmessage (ClearTimerMessage i ty') h'
          (worker_onmessage (ClearTimerMessage i ty) h w)
        = worker_onmessage (ClearTimerMessage i ty) h w"
    by (simp add: worker_onmessage_def native_clear_def Let_def AList.delete_conv'
          AList.delete_idem split: option.splits)
qed (simp_all add: trace_clearTimer seq_clearTimer idMap_clearTimer AList.delete_conv'
       AList.delete_idem)

text \<open>The equations that evaluate a concrete run.\<close>

lemmas run_eval =
  init_def Let_def split_beta setTimer_def nextId_def idMap_set_def idMap_delete_def
  postMessage_def clearTimer_def onmessage_def new_posts_def worker_onmessage_def
  native_set_def native_clear_def native_fires_def set_call_def clear_call_def

section \<open>The claims\<close>

subsection \<open>C1: the two registries in lockstep\<close>

text \<open>
  Claim C1, as amended. In every state an instance can reach by method calls and in-order
  delivery of messages, the main thread's registry holds at most one Transaction for an id
  and the worker's registry at most one handle for it (so this holds for an id known to
  the other side); moreover at most one native timer is active for the id, and the
  worker's registry maps the id to handle \<open>h\<close> exactly when the active native timer \<open>h\<close>
  carries that id. The main thread's state, and with it its registry, changes only in a
  method call or when the main thread handles a received message: not when the worker
  receives a message or a native timer fires, and not when there is no message to handle.
  The worker's state, and with it its registry, changes only when the worker handles a
  received message or a native timer fires: not in a method call or when the main thread
  handles a message, and not when there is no message to handle. When the firing of a
  native timer changes the worker's registry, the timer was made by \<^verbatim>\<open>setTimeout\<close> and
  the change is the deletion of the id its callback carries. Neither side reads the
  other's state: the next main-thread state depends only on the main-thread state and the
  queue to it, the next worker state only on the worker state, the queue to it and whether
  it has been terminated.
\<close>

theorem C1_registry_lockstep:
  "length (filter (\<lambda>e. fst e = i) (idMap (main (run es init)))) \<le> 1
   \<and> length (filter (\<lambda>e. fst e = i) (worker_idMap (worker (run es init)))) \<le> 1
   \<and> length (filter (\<lambda>e. timer_id e = i) (timers (worker (run es init)))) \<le> 1
   \<and> (map_of (worker_idMap (worker (run es init))) i = Some h
        \<longleftrightarrow> (\<exists>t. map_of (timers (worker (run es init))) h = Some t
                  \<and> callback_id (n_callback t) = i))
   \<and> main (step (Worker_receives h') s) = main s
   \<and> main (step (Native_fires h') s) = main s
   \<and> (to_main s = [] \<longrightarrow> main (step (Main_receives oc) s) = main s)
   \<and> worker (step (Api c) s) = worker s
   \<and> worker (step (Main_receives oc) s) = worker s
   \<and> (to_worker s = [] \<longrightarrow> worker (step (Worker_receives h') s) = worker s)
   \<and> (worker_idMap (worker (step (Native_fires h') (run es init)))
          \<noteq> worker_idMap (worker (run es init))
        \<longrightarrow> (\<exists>t. map_of (timers (worker (run es init))) h' = Some t
                  \<and> n_prim t = T_setTimeout
                  \<and> worker_idMap (worker (step (Native_fires h') (run es init)))
                    = AList.delete (callback_id (n_callback t))
                        (worker_idMap (worker (run es init)))))
   \<and> (main s1 = main s2 \<and> to_main s1 = to_main s2
        \<longrightarrow> main (step e s1) = main (step e s2))
   \<and> (worker s1 = worker s2 \<and> to_worker s1 = to_worker s2 \<and> terminated s1 = terminated s2
        \<longrightarrow> worker (step e s1) = worker (step e s2))"
proof -
  have m: "main_inv (main (run es init))" by (rule main_inv_reachable)
  have "lockstep_inv (run es init)" by (rule lockstep_inv_reachable)
  then have w: "worker_ok (worker (run es init))" by (simp add: lockstep_inv_def)
  from m have "distinct (map fst (idMap (main (run es init))))"
    by (simp add: main_inv_def)
  then have 1: "length (filter (\<lambda>e. fst e = i) (idMap (main (run es init)))) \<le> 1"
    by (rule at_most_one)
  from w have "distinct (map fst (worker_idMap (worker (run es init))))"
    by (simp add: worker_ok_def)
  then have 2: "length (filter (\<lambda>e. fst e = i) (worker_idMap (worker (run es init)))) \<le> 1"
    by (rule at_most_one)
  from w have "distinct (map timer_id (timers (worker (run es init))))"
    by (simp add: worker_ok_def)
  then have 3: "length (filter (\<lambda>e. timer_id e = i) (timers (worker (run es init)))) \<le> 1"
    by (rule at_most_one)
  note 4 = handle_of_id [OF w, of i h]
  note 5 = main_frame [where h = h' and s = s] idle_frame(1) [where s = s and oc = oc]
  note 6 = worker_frame(1) [where c = c and s = s] worker_frame(2) [where oc = oc and s = s]
    idle_frame(2) [where s = s and h = h']
  note 7 = fire_changes_map [OF w, of h']
  from 1 2 3 4 5 6 7 step_main_local [of s1 s2 e] step_worker_local [of s1 s2 e]
  show ?thesis by blast
qed

theorem C1_registry_lockstep_witness:
  "map_of (timers (worker (run [Api (Call_setTimeout (7::nat) None [1::nat]),
                                Worker_receives 5] init))) 5
     = Some \<lparr>n_prim = T_setTimeout, n_callback = Invoke_then_delete 0, n_delay = 0\<rparr>
   \<and> map_of (worker_idMap (worker (run [Api (Call_setTimeout (7::nat) None [1::nat]),
                                      Worker_receives 5] init))) 0 = Some 5
   \<and> to_main (init :: (nat, nat) sys) = []
   \<and> main (step (Main_receives Returns) (init :: (nat, nat) sys)) = main init
   \<and> to_worker (init :: (nat, nat) sys) = []
   \<and> worker (step (Worker_receives 5) (init :: (nat, nat) sys))
      = worker (init :: (nat, nat) sys)
   \<and> worker_idMap (worker (step (Native_fires 5)
          (run [Api (Call_setTimeout (7::nat) None [1::nat]), Worker_receives 5] init)))
      \<noteq> worker_idMap (worker
          (run [Api (Call_setTimeout (7::nat) None [1::nat]), Worker_receives 5] init))
   \<and> worker_idMap (worker (step (Native_fires 5)
          (run [Api (Call_setTimeout (7::nat) None [1::nat]), Worker_receives 5] init)))
      = AList.delete 0 (worker_idMap (worker
          (run [Api (Call_setTimeout (7::nat) None [1::nat]), Worker_receives 5] init)))
   \<and> main (init :: (nat, nat) sys)
      = main (init\<lparr>worker := \<lparr>worker_idMap = [(3, 4)], timers = [], posted = []\<rparr>\<rparr>)
   \<and> main (step (Api (Call_clearTimeout 0)) (init :: (nat, nat) sys))
      = main (step (Api (Call_clearTimeout 0))
                (init\<lparr>worker := \<lparr>worker_idMap = [(3, 4)], timers = [], posted = []\<rparr>\<rparr>))
   \<and> worker (run [Api (Call_setTimeout (7::nat) None [1::nat])] init)
      = worker ((run [Api (Call_setTimeout (7::nat) None [1::nat])] init)
                  \<lparr>main := \<lparr>idMap = [], seq = 9, trace = []\<rparr>\<rparr>)
   \<and> worker (step (Worker_receives 5) (run [Api (Call_setTimeout (7::nat) None [1::nat])] init))
      = worker (step (Worker_receives 5)
                  ((run [Api (Call_setTimeout (7::nat) None [1::nat])] init)
                     \<lparr>main := \<lparr>idMap = [], seq = 9, trace = []\<rparr>\<rparr>))"
proof -
  let ?es = "[Api (Call_setTimeout (7::nat) None [1::nat]), Worker_receives 5]"
  let ?T = "\<lparr>n_prim = T_setTimeout, n_callback = Invoke_then_delete 0, n_delay = 0\<rparr>"
  let ?s0 = "init :: (nat, nat) sys"
  let ?s0' = "?s0\<lparr>worker := \<lparr>worker_idMap = [(3, 4)], timers = [], posted = []\<rparr>\<rparr>"
  let ?s1 = "run [Api (Call_setTimeout (7::nat) None [1::nat])] init"
  let ?s1' = "?s1\<lparr>main := \<lparr>idMap = [], seq = 9, trace = []\<rparr>\<rparr>"
  have t: "map_of (timers (worker (run ?es init))) 5 = Some ?T"
    by (simp add: run_eval)
  then have ex: "\<exists>t. map_of (timers (worker (run ?es init))) 5 = Some t
                     \<and> callback_id (n_callback t) = 0"
    by simp
  have q: "to_main ?s0 = []" "to_worker ?s0 = []"
    by (simp_all add: init_def)
  have ch: "worker_idMap (worker (step (Native_fires 5) (run ?es init)))
            \<noteq> worker_idMap (worker (run ?es init))"
    by (simp add: run_eval)
  have m: "main ?s0 = main ?s0'" "to_main ?s0 = to_main ?s0'"
    by simp_all
  have w: "worker ?s1 = worker ?s1'" "to_worker ?s1 = to_worker ?s1'"
    "terminated ?s1 = terminated ?s1'"
    by simp_all
  note a = C1_registry_lockstep
    [of 0 "?es" 5 5 "?s0" Returns "Call_clearTimeout 0" "?s0" "?s0'"
        "Api (Call_clearTimeout 0)"]
  note b = C1_registry_lockstep
    [of 0 "?es" 5 5 "?s0" Returns "Call_clearTimeout 0" "?s1" "?s1'" "Worker_receives 5"]
  from a ex have 1: "map_of (worker_idMap (worker (run ?es init))) 0 = Some 5"
    by blast
  from a q(1) have 2: "main (step (Main_receives Returns) ?s0) = main ?s0"
    by blast
  from a q(2) have 3: "worker (step (Worker_receives 5) ?s0) = worker ?s0"
    by blast
  from a ch obtain t' where t': "map_of (timers (worker (run ?es init))) 5 = Some t'"
    "worker_idMap (worker (step (Native_fires 5) (run ?es init)))
       = AList.delete (callback_id (n_callback t')) (worker_idMap (worker (run ?es init)))"
    by blast
  from t t'(1) have "t' = ?T" by simp
  with t'(2) have 4: "worker_idMap (worker (step (Native_fires 5) (run ?es init)))
       = AList.delete 0 (worker_idMap (worker (run ?es init)))"
    by simp
  from a m have 5: "main (step (Api (Call_clearTimeout 0)) ?s0)
                    = main (step (Api (Call_clearTimeout 0)) ?s0')"
    by blast
  from b w have 6: "worker (step (Worker_receives 5) ?s1)
                    = worker (step (Worker_receives 5) ?s1')"
    by blast
  show ?thesis
    by (intro conjI) (rule t 1 q 2 3 ch 4 m(1) 5 w(1) 6)+
qed

text \<open>
  The claim as stated, "the two maps are updated only in reaction to API calls and
  received messages", fails for the worker's map: after \<^verbatim>\<open>setTimeout(f, undefined, 1)\<close>
  and the worker's handling of the request, both queues are empty and the worker's map
  holds id \<open>0\<close>; the native timer fires, and its callback deletes the entry.
\<close>

theorem C1_counterexample:
  "to_worker (run [Api (Call_setTimeout (7::nat) None [1::nat]), Worker_receives 5] init) = []
   \<and> to_main (run [Api (Call_setTimeout (7::nat) None [1::nat]), Worker_receives 5] init) = []
   \<and> worker_idMap (worker
         (run [Api (Call_setTimeout (7::nat) None [1::nat]), Worker_receives 5] init))
      = [(0, 5)]
   \<and> worker_idMap (worker (step (Native_fires 5)
         (run [Api (Call_setTimeout (7::nat) None [1::nat]), Worker_receives 5] init)))
      = []"
  by (simp add: run_eval)

subsection \<open>C2: timer ids are 0, 1, 2, ... in call order\<close>

text \<open>
  Claim C2. For every sequence of \<^verbatim>\<open>setTimeout\<close>, \<^verbatim>\<open>setInterval\<close>, \<^verbatim>\<open>clearTimeout\<close> and
  \<^verbatim>\<open>clearInterval\<close> calls on one instance (here also \<^verbatim>\<open>terminate\<close>, and with worker
  and main-thread message handling interleaved in any way), the ids returned by the
  scheduling calls are exactly \<open>0, 1, 2, ...\<close> in call order: increasing from \<open>0\<close>
  without gaps, hence pairwise different, so that no id comes back after its
  Transaction has been removed.
\<close>

theorem C2_ids_count_up:
  "returned es init = [0 ..< length (filter schedules es)] \<and> distinct (returned es init)"
  by (simp add: returned_run init_def)

theorem C2_ids_count_up_witness:
  "returned [Api (Call_setTimeout (7::nat) None [1::nat]), Api (Call_clearTimeout 0),
             Api (Call_setInterval 8 (Some 5) []), Main_receives Returns,
             Api (Call_setTimeout 7 None [])] init = [0, 1, 2]"
  using C2_ids_count_up
    [of "[Api (Call_setTimeout (7::nat) None [1::nat]), Api (Call_clearTimeout 0),
          Api (Call_setInterval 8 (Some 5) []), Main_receives Returns,
          Api (Call_setTimeout 7 None [])]"]
  by (simp add: upt_rec)

subsection \<open>C3: handling an invoke notification\<close>

text \<open>
  Claim C3. When the main thread's message handler processes an invoke notification for
  an id that has a Transaction, it calls the stored callback with the stored arguments
  within that turn; a \<^verbatim>\<open>setTimeout\<close> Transaction is always removed from the registry
  afterward, a \<^verbatim>\<open>setInterval\<close> Transaction never by this handling.

  The code misses the removal when the user callback throws. The closure stored for
  \<^verbatim>\<open>setTimeout\<close> runs \<^verbatim>\<open>func(...args); idMap.delete(id)\<close> with no \<^verbatim>\<open>try\<close>. On a new
  instance \<^verbatim>\<open>setTimeout(f, undefined, 1)\<close> returns id \<open>0\<close>; the worker handles the request
  and its native timer fires, so the invoke notification for \<open>0\<close> is in the queue to the
  main thread. When the handler runs and \<open>f\<close> throws, the handler throws, the callback
  has been called, and the Transaction for \<open>0\<close> is still in the registry, although the
  worker has no timer and no entry left for \<open>0\<close>. When \<open>f\<close> returns, the Transaction is
  removed, as the claim says.
\<close>

theorem C3_throwing_callback_keeps_transaction:
  "to_main (run [Api (Call_setTimeout (7::nat) None [1::nat]), Worker_receives 5,
                 Native_fires 5] init)
     = [InvokeMessage 0]
   \<and> onmessage (InvokeMessage 0) Throws
         (main (run [Api (Call_setTimeout (7::nat) None [1::nat]), Worker_receives 5,
                     Native_fires 5] init))
     = (Throws,
        \<lparr>idMap = [(0, \<lparr>t_id = 0, t_type = T_setTimeout, t_func = Call_then_delete 7 0,
                          t_duration = 0, t_args = [1]\<rparr>)],
         seq = 1,
         trace = [Reg_set 0, Post (SetTimerMessage 0 T_setTimeout 0), Call 0 7 [1]]\<rparr>)
   \<and> main (run [Api (Call_setTimeout (7::nat) None [1::nat]), Worker_receives 5,
                Native_fires 5, Main_receives Throws] init)
     = \<lparr>idMap = [(0, \<lparr>t_id = 0, t_type = T_setTimeout, t_func = Call_then_delete 7 0,
                         t_duration = 0, t_args = [1]\<rparr>)],
        seq = 1,
        trace = [Reg_set 0, Post (SetTimerMessage 0 T_setTimeout 0), Call 0 7 [1]]\<rparr>
   \<and> worker (run [Api (Call_setTimeout (7::nat) None [1::nat]), Worker_receives 5,
                  Native_fires 5, Main_receives Throws] init)
     = \<lparr>worker_idMap = [], timers = [], posted = [InvokeMessage 0]\<rparr>
   \<and> main (run [Api (Call_setTimeout (7::nat) None [1::nat]), Worker_receives 5,
                Native_fires 5, Main_receives Returns] init)
     = \<lparr>idMap = [],
        seq = 1,
        trace = [Reg_set 0, Post (SetTimerMessage 0 T_setTimeout 0), Call 0 7 [1],
                 Reg_delete 0]\<rparr>"
  by (simp add: run_eval)

subsection \<open>C4: schedule, then cancel at once\<close>

text \<open>
  Claim C4. A scheduling call returns id \<open>i\<close>; the cancel call for \<open>i\<close> follows before
  the main thread handles any message (the worker may meanwhile receive the request and
  the native timer may fire, so that an invoke message for \<open>i\<close> is on its way). Then in
  no later state, whatever happens in whatever order, has a user callback been called for
  \<open>i\<close>. The first part says that \<open>i\<close> is the id the scheduling call returns.
\<close>

theorem C4_schedule_then_cancel:
  assumes "list_all (\<lambda>e. \<not> main_receives e) ws"
  shows "result (Api (set_call ty f d as)) (run es1 init) = Some (seq (main (run es1 init)))
    \<and> invocations (seq (main (run es1 init)))
        (main (run (es1 @ Api (set_call ty f d as) # ws
                    @ Api (clear_call ty' (seq (main (run es1 init)))) # es2) init)) = []"
proof -
  let ?s1 = "run es1 init"
  let ?i = "seq (main ?s1)"
  let ?s2 = "step (Api (set_call ty f d as)) ?s1"
  let ?s3 = "run ws ?s2"
  let ?s4 = "step (Api (clear_call ty' ?i)) ?s3"
  have "invocations ?i (main ?s1) = []"
    using main_inv_reachable by (rule fresh_not_invoked)
  then have "invocations ?i (main ?s2) = []"
    by (simp add: invocations_api Let_def)
  with assms have 3: "invocations ?i (main ?s3) = []"
    by (simp add: invocations_run)
  have "seq (main ?s2) = Suc ?i"
    by (simp add: api_set_call seq_setTimer Let_def)
  moreover have "seq (main ?s3) = seq (main ?s2) + length (filter schedules ws)"
    by (rule seq_run)
  ultimately have lt: "?i < seq (main ?s3)"
    by simp
  have "gone ?i (main ?s4)"
    unfolding main_step_clear using lt 3 by (rule gone_after_clear)
  then have "gone ?i (main (run es2 ?s4))" by (rule gone_run)
  then have "invocations ?i (main (run es2 ?s4)) = []" by (simp add: gone_def)
  moreover have "result (Api (set_call ty f d as)) ?s1 = Some ?i"
    by (simp add: api_set_call)
  ultimately show ?thesis by (simp add: run_append)
qed

theorem C4_schedule_then_cancel_witness:
  "list_all (\<lambda>e. \<not> main_receives e) [Worker_receives 5, Native_fires 5 :: (nat, nat) event]
   \<and> to_main (run ([] @ Api (set_call T_setTimeout (7::nat) None [1::nat])
                      # [Worker_receives 5, Native_fires 5]
                      @ [Api (clear_call T_clearTimeout 0)]) init)
     = [InvokeMessage 0]
   \<and> invocations 0
        (main (run ([] @ Api (set_call T_setTimeout (7::nat) None [1::nat])
                      # [Worker_receives 5, Native_fires 5]
                      @ Api (clear_call T_clearTimeout 0) # [Main_receives Returns]) init))
     = []"
proof -
  have h: "list_all (\<lambda>e. \<not> main_receives e)
             [Worker_receives 5, Native_fires 5 :: (nat, nat) event]"
    by simp
  have q: "to_main (run ([] @ Api (set_call T_setTimeout (7::nat) None [1::nat])
                      # [Worker_receives 5, Native_fires 5]
                      @ [Api (clear_call T_clearTimeout 0)]) init)
     = [InvokeMessage 0]"
    by (simp add: run_eval)
  have z: "seq (main (run [] (init :: (nat, nat) sys))) = 0"
    by (simp add: init_def)
  from C4_schedule_then_cancel
         [OF h, of T_setTimeout "7::nat" None "[1::nat]" "[]" T_clearTimeout
            "[Main_receives Returns]"]
  have "invocations 0
        (main (run ([] @ Api (set_call T_setTimeout (7::nat) None [1::nat])
                      # [Worker_receives 5, Native_fires 5]
                      @ Api (clear_call T_clearTimeout 0) # [Main_receives Returns]) init))
     = []"
    unfolding z by (rule conjunct2)
  with h q show ?thesis by blast
qed

subsection \<open>C5: a scheduling call\<close>

text \<open>
  Claim C5. In any state an instance can reach, a scheduling call (\<^verbatim>\<open>setTimeout\<close> or
  \<^verbatim>\<open>setInterval\<close>) returns an id that no earlier call returned and that has no
  Transaction yet; it stores the Transaction under that id and then posts exactly one
  \<^verbatim>\<open>SetTimerMessage {id, type, duration}\<close>, which joins the queue to the worker. The
  call is one step of the main thread: the worker and the queue to the main thread are
  as before, so nothing was awaited.
\<close>

theorem C5_scheduling_call:
  "result (Api (set_call ty f d as)) (run es init) = Some (seq (main (run es init)))
   \<and> seq (main (run es init)) \<notin> set (returned es init)
   \<and> map_of (idMap (main (run es init))) (seq (main (run es init))) = None
   \<and> map_of (idMap (main (step (Api (set_call ty f d as)) (run es init))))
        (seq (main (run es init)))
      = Some \<lparr>t_id = seq (main (run es init)), t_type = ty,
               t_func = (if ty = T_setTimeout
                         then Call_then_delete f (seq (main (run es init))) else Call_only f),
               t_duration = (case d of None \<Rightarrow> 0 | Some x \<Rightarrow> x), t_args = as\<rparr>
   \<and> trace (main (step (Api (set_call ty f d as)) (run es init)))
      = trace (main (run es init))
        @ [Reg_set (seq (main (run es init))),
           Post (SetTimerMessage (seq (main (run es init))) ty
                   (case d of None \<Rightarrow> 0 | Some x \<Rightarrow> x))]
   \<and> to_worker (step (Api (set_call ty f d as)) (run es init))
      = to_worker (run es init)
        @ [SetTimerMessage (seq (main (run es init))) ty (case d of None \<Rightarrow> 0 | Some x \<Rightarrow> x)]
   \<and> worker (step (Api (set_call ty f d as)) (run es init)) = worker (run es init)
   \<and> to_main (step (Api (set_call ty f d as)) (run es init)) = to_main (run es init)"
proof -
  let ?s = "run es init"
  have inv: "main_inv (main ?s)" by (rule main_inv_reachable)
  have fresh: "map_of (idMap (main ?s)) (seq (main ?s)) = None"
  proof (rule ccontr)
    assume "map_of (idMap (main ?s)) (seq (main ?s)) \<noteq> None"
    then obtain t where "(seq (main ?s), t) \<in> set (idMap (main ?s))"
      by (auto dest: map_of_SomeD)
    with inv show False by (auto simp: main_inv_def list_all_iff)
  qed
  have notret: "seq (main ?s) \<notin> set (returned es init)"
    by (simp add: returned_run seq_run init_def)
  have nt: "set_call ty f d as \<noteq> Call_terminate"
    by (cases ty) (simp_all add: set_call_def)
  show ?thesis
    using fresh notret nt
    by (simp add: api_set_call idMap_setTimer trace_setTimer AList.update_conv'
          new_posts_append [OF trace_setTimer])
qed

theorem C5_scheduling_call_witness:
  "result (Api (set_call T_setTimeout (7::nat) None [1::nat]))
      (run [Api (Call_setInterval 8 (Some 5) [])] init) = Some 1
   \<and> trace (main (step (Api (set_call T_setTimeout (7::nat) None [1::nat]))
                      (run [Api (Call_setInterval 8 (Some 5) [])] init)))
      = [Reg_set 0, Post (SetTimerMessage 0 T_setInterval 5),
         Reg_set 1, Post (SetTimerMessage 1 T_setTimeout 0)]
   \<and> to_worker (step (Api (set_call T_setTimeout (7::nat) None [1::nat]))
                   (run [Api (Call_setInterval 8 (Some 5) [])] init))
      = [SetTimerMessage 0 T_setInterval 5, SetTimerMessage 1 T_setTimeout 0]"
proof -
  have s: "seq (main (run [Api (Call_setInterval (8::nat) (Some 5) ([]::nat list))] init)) = 1"
    by (simp add: run_eval)
  have t: "trace (main (run [Api (Call_setInterval (8::nat) (Some 5) ([]::nat list))] init))
             = [Reg_set 0, Post (SetTimerMessage 0 T_setInterval 5)]"
    by (simp add: run_eval)
  have q: "to_worker (run [Api (Call_setInterval (8::nat) (Some 5) ([]::nat list))] init)
             = [SetTimerMessage 0 T_setInterval 5]"
    by (simp add: run_eval)
  from C5_scheduling_call
         [of T_setTimeout "7::nat" None "[1::nat]" "[Api (Call_setInterval 8 (Some 5) [])]"]
  show ?thesis
    unfolding s t q by (simp del: run.simps step.simps)
qed

subsection \<open>C6: the worker handles a set-timer message\<close>

text \<open>
  Claim C6. On a \<^verbatim>\<open>SetTimerMessage {id, type, duration}\<close> the worker calls the native
  primitive named by the type (\<^verbatim>\<open>setTimeout\<close> or \<^verbatim>\<open>setInterval\<close>) with the duration
  and with a callback that, whenever it runs, posts an invoke message carrying that id
  and, only when the type is \<^verbatim>\<open>setTimeout\<close>, also deletes the worker's entry for the id;
  the handle the primitive returns is stored under the id. Handling the message posts
  nothing.
\<close>

theorem C6_worker_sets_timer:
  "\<exists>cb. timers (worker_onmessage (SetTimerMessage i ty d) h w)
          = timers w @ [(h, \<lparr>n_prim = ty, n_callback = cb, n_delay = d\<rparr>)]
     \<and> (\<forall>w0. posted (run_callback cb w0) = posted w0 @ [InvokeMessage i]
            \<and> timers (run_callback cb w0) = timers w0
            \<and> worker_idMap (run_callback cb w0)
                = (if ty = T_setTimeout then AList.delete i (worker_idMap w0)
                   else worker_idMap w0))
     \<and> worker_idMap (worker_onmessage (SetTimerMessage i ty d) h w)
          = AList.update i h (worker_idMap w)
     \<and> map_of (worker_idMap (worker_onmessage (SetTimerMessage i ty d) h w)) i = Some h
     \<and> posted (worker_onmessage (SetTimerMessage i ty d) h w) = posted w"
  by (cases ty) (simp_all add: worker_onmessage_def native_set_def Let_def AList.update_conv')

theorem C6_worker_sets_timer_witness:
  "map_of (worker_idMap (worker_onmessage (SetTimerMessage 3 T_setTimeout 250) 9
        \<lparr>worker_idMap = [(1, 4)], timers = [], posted = []\<rparr>)) 3 = Some 9
   \<and> worker_idMap (worker_onmessage (SetTimerMessage 3 T_setTimeout 250) 9
        \<lparr>worker_idMap = [(1, 4)], timers = [], posted = []\<rparr>) = [(1, 4), (3, 9)]"
  using C6_worker_sets_timer
    [of 3 T_setTimeout 250 9 "\<lparr>worker_idMap = [(1, 4)], timers = [], posted = []\<rparr>"]
  by auto

subsection \<open>C7: a notification for an unknown id is dropped\<close>

text \<open>
  Claim C7. When the main thread's message handler gets a notification whose id has no
  Transaction in the registry, it drops the message: the handler returns normally and
  the whole main-thread state is as before, so the registry is unchanged and no callback
  has been called.
\<close>

theorem C7_unknown_id_dropped:
  "map_of (idMap m) (msg_id msg) = None \<Longrightarrow> onmessage msg oc m = (Returns, m)"
  by (simp add: onmessage_def)

theorem C7_unknown_id_dropped_witness:
  "map_of (idMap (snd (setTimer T_setInterval (7::nat) None [1::nat] (main init))))
      (msg_id (InvokeMessage 5)) = None
   \<and> onmessage (InvokeMessage 5) Throws
        (snd (setTimer T_setInterval (7::nat) None [1::nat] (main init)))
      = (Returns, snd (setTimer T_setInterval 7 None [1] (main init)))"
proof -
  have h: "map_of (idMap (snd (setTimer T_setInterval (7::nat) None [1::nat] (main init))))
      (msg_id (InvokeMessage 5)) = None"
    by (simp add: idMap_setTimer init_def)
  from h C7_unknown_id_dropped [OF h, of Throws] show ?thesis by simp
qed

subsection \<open>C8: clearing a timer\<close>

text \<open>
  Claim C8. \<^verbatim>\<open>clearTimeout\<close> and \<^verbatim>\<open>clearInterval\<close> always post a
  \<^verbatim>\<open>ClearTimerMessage {id, type}\<close> and remove the Transaction for the id if present;
  for an unknown or already-fired id the call is a no-op that raises no error and leaves
  the registry unchanged, and calling it twice with the same id has the same effect as
  calling it once.

  \<^verbatim>\<open>clearTimer\<close> itself posts one message and then deletes the id. The code departs from
  the claim for an already-fired id whose callback threw: the closure stored for
  \<^verbatim>\<open>setTimeout\<close> then skipped its \<^verbatim>\<open>idMap.delete(id)\<close>, so the Transaction of the fired
  timer is still in the registry. On a new instance \<^verbatim>\<open>setTimeout(f, undefined, 1)\<close>
  returns id \<open>0\<close>, the timer fires and \<open>f\<close> throws in the handler: the callback has been
  called for \<open>0\<close>, the worker has no timer left, and the registry still holds \<open>0\<close>.
  \<^verbatim>\<open>clearTimeout(0)\<close> then posts its message and empties the registry: it is not a no-op.
\<close>

theorem C8_clear_after_throwing_callback:
  "idMap (main (run [Api (Call_setTimeout (7::nat) None [1::nat]), Worker_receives 5,
                     Native_fires 5, Main_receives Throws] init))
     = [(0, \<lparr>t_id = 0, t_type = T_setTimeout, t_func = Call_then_delete 7 0,
               t_duration = 0, t_args = [1]\<rparr>)]
   \<and> invocations 0
         (main (run [Api (Call_setTimeout (7::nat) None [1::nat]), Worker_receives 5,
                     Native_fires 5, Main_receives Throws] init))
     = [Call 0 7 [1]]
   \<and> timers (worker (run [Api (Call_setTimeout (7::nat) None [1::nat]), Worker_receives 5,
                          Native_fires 5, Main_receives Throws] init))
     = []
   \<and> idMap (main (step (Api (Call_clearTimeout 0))
         (run [Api (Call_setTimeout (7::nat) None [1::nat]), Worker_receives 5,
               Native_fires 5, Main_receives Throws] init)))
     = []
   \<and> to_worker (step (Api (Call_clearTimeout 0))
         (run [Api (Call_setTimeout (7::nat) None [1::nat]), Worker_receives 5,
               Native_fires 5, Main_receives Throws] init))
     = [ClearTimerMessage 0 T_clearTimeout]"
  by (simp add: run_eval invocations_def)

subsection \<open>C9: building the worker with a fallback\<close>

text \<open>
  Claim C9. \<^verbatim>\<open>createWorker\<close> tries the data-URL strategy first; the blob-URL strategy
  runs if and only if the first one throws, and its outcome is then the outcome of
  \<^verbatim>\<open>createWorker\<close>. When both throw, the error of the second reaches the caller of
  \<^verbatim>\<open>createWorker\<close>, and through it the caller of \<^verbatim>\<open>createWorkerTimer\<close>.
\<close>

theorem C9_create_worker_fallback:
  "fst (createWorker host)
     = fst (createWorkerWithDataUrl host)
       @ (if isl (snd (createWorkerWithDataUrl host)) then fst (createWorkerWithBlob host)
          else [])
   \<and> hd (fst (createWorker host)) = FunctionToDataUrl
   \<and> (FunctionToObjectUrl \<in> set (fst (createWorker host))
        \<longleftrightarrow> isl (snd (createWorkerWithDataUrl host)))
   \<and> snd (createWorker host)
     = (if isl (snd (createWorkerWithDataUrl host)) then snd (createWorkerWithBlob host)
        else snd (createWorkerWithDataUrl host))
   \<and> (snd (createWorkerWithDataUrl host) = Inl e1 \<and> snd (createWorkerWithBlob host) = Inl e2
        \<longrightarrow> snd (createWorker host) = Inl e2
          \<and> snd (createWorkerTimer host :: ('e, ('f, 'a) sys) attempt) = Inl e2)"
  by (intro conjI)
     (auto simp add: createWorker_def createWorkerTimer_def try_catch_def
        createWorkerWithDataUrl_def createWorkerWithBlob_def and_then_def host_do_def
        split: option.splits sum.splits)

theorem C9_create_worker_fallback_witness:
  "snd (createWorkerWithDataUrl host_blocked) = Inl 1
   \<and> snd (createWorkerWithBlob host_blocked) = Inl 2
   \<and> fst (createWorker host_blocked)
      = [FunctionToDataUrl, New_Worker_data_url, FunctionToObjectUrl, New_Worker_object_url]
   \<and> snd (createWorker host_blocked) = Inl 2
   \<and> snd (createWorkerTimer host_blocked :: (nat, (nat, nat) sys) attempt) = Inl 2"
proof -
  have h1: "snd (createWorkerWithDataUrl host_blocked) = Inl 1"
    by (simp add: createWorkerWithDataUrl_def and_then_def host_do_def host_blocked_def)
  have h2: "snd (createWorkerWithBlob host_blocked) = Inl 2"
    by (simp add: createWorkerWithBlob_def and_then_def host_do_def host_blocked_def)
  have l1: "fst (createWorkerWithDataUrl host_blocked)
              = [FunctionToDataUrl, New_Worker_data_url]"
    by (simp add: createWorkerWithDataUrl_def and_then_def host_do_def host_blocked_def)
  have l2: "fst (createWorkerWithBlob host_blocked)
              = [FunctionToObjectUrl, New_Worker_object_url]"
    by (simp add: createWorkerWithBlob_def and_then_def host_do_def host_blocked_def)
  note a = C9_create_worker_fallback [of host_blocked 1 2, where ?'f = nat and ?'a = nat]
  from a h1 h2 have "snd (createWorker host_blocked) = Inl 2"
    "snd (createWorkerTimer host_blocked :: (nat, (nat, nat) sys) attempt) = Inl 2"
    by blast+
  moreover from a h1 l1 l2 have "fst (createWorker host_blocked)
      = [FunctionToDataUrl, New_Worker_data_url, FunctionToObjectUrl, New_Worker_object_url]"
    by simp
  ultimately show ?thesis using h1 h2 by blast
qed

subsection \<open>C10: the module-level default instance\<close>

text \<open>
  Claim C10, as amended. Along any sequence of calls of the five bare module functions
  (with anything happening to the default instance in between) \<^verbatim>\<open>getWorkerTimer\<close> creates
  at most one instance, and the variable holds an instance exactly when one was created.
  A bare call made while the variable is \<^verbatim>\<open>null\<close> creates the instance when building the
  worker succeeds, and applies the method to the new instance; when building the worker
  throws, the call throws that error and leaves the variable \<^verbatim>\<open>null\<close>. A bare call made
  while the variable holds an instance applies the method to that instance and creates
  nothing. Once set, the variable is never reset. In particular a bare \<^verbatim>\<open>terminate()\<close>
  called first (building the worker succeeding) creates the instance and terminates its
  worker, and from then on every bare call goes to that terminated instance.
\<close>

theorem C10_default_instance:
  fixes M :: "('f, 'a) module_state" and host :: "'e host"
    and evs evs' :: "('e, 'f, 'a) module_event list"
  shows "created_once (module_run evs (module_init :: ('f, 'a) module_state))
   \<and> (defaultWorkerTimer M = None \<and> snd (createWorker host) = Inr w
        \<longrightarrow> bare c host M
            = (Inr (result (Api c) init),
               M\<lparr>defaultWorkerTimer := Some (step (Api c) init), created := created M + 1\<rparr>))
   \<and> (defaultWorkerTimer M = None \<and> snd (createWorker host) = Inl e
        \<longrightarrow> bare c host M = (Inl e, M))
   \<and> (defaultWorkerTimer M = Some inst
        \<longrightarrow> bare c host M
            = (Inr (result (Api c) inst), M\<lparr>defaultWorkerTimer := Some (step (Api c) inst)\<rparr>))
   \<and> (defaultWorkerTimer M \<noteq> None
        \<longrightarrow> defaultWorkerTimer (module_run evs' M) \<noteq> None
            \<and> created (module_run evs' M) = created M)
   \<and> (snd (createWorker host) = Inr w
        \<longrightarrow> snd (terminate host (module_init :: ('f, 'a) module_state))
              = \<lparr>defaultWorkerTimer = Some (init\<lparr>terminated := True\<rparr>), created = 1\<rparr>
            \<and> default_terminated
                (module_run evs' (snd (terminate host (module_init :: ('f, 'a) module_state))))
            \<and> created
                (module_run evs' (snd (terminate host (module_init :: ('f, 'a) module_state))))
              = 1)"
proof (intro conjI impI)
  have "created_once (module_init :: ('f, 'a) module_state)"
    by (simp add: created_once_def module_init_def)
  then show "created_once (module_run evs (module_init :: ('f, 'a) module_state))"
    by (rule created_once_run)
next
  assume "defaultWorkerTimer M = None \<and> snd (createWorker host) = Inr w"
  then show "bare c host M
            = (Inr (result (Api c) init),
               M\<lparr>defaultWorkerTimer := Some (step (Api c) init), created := created M + 1\<rparr>)"
    by (simp add: bare_first del: step.simps)
next
  assume "defaultWorkerTimer M = None \<and> snd (createWorker host) = Inl e"
  then show "bare c host M = (Inl e, M)" by (simp add: bare_failing)
next
  assume "defaultWorkerTimer M = Some inst"
  then show "bare c host M
       = (Inr (result (Api c) inst), M\<lparr>defaultWorkerTimer := Some (step (Api c) inst)\<rparr>)"
    by (rule bare_existing)
next
  assume a: "defaultWorkerTimer M \<noteq> None"
  from kept_run [OF a, of evs']
  show "defaultWorkerTimer (module_run evs' M) \<noteq> None"
    "created (module_run evs' M) = created M"
    by simp_all
next
  assume w: "snd (createWorker host) = Inr w"
  let ?M = "snd (terminate host (module_init :: ('f, 'a) module_state))"
  show t: "?M = \<lparr>defaultWorkerTimer = Some (init\<lparr>terminated := True\<rparr>), created = 1\<rparr>"
    using w by (simp add: terminate_def bare_first module_init_def init_def new_posts_def)
  have "default_terminated ?M"
    unfolding t by (simp add: default_terminated_def)
  then show "default_terminated (module_run evs' ?M)"
    by (rule default_terminated_run)
  have "defaultWorkerTimer ?M \<noteq> None"
    unfolding t by simp
  from kept_run [OF this, of evs']
  show "created (module_run evs' ?M) = 1"
    unfolding t by simp
qed

theorem C10_default_instance_witness:
  "snd (createWorker host_ok) = Inr Worker_of_data_url
   \<and> snd (createWorker host_blocked) = Inl 2
   \<and> defaultWorkerTimer (module_init :: (nat, nat) module_state) = None
   \<and> bare (Call_setTimeout (7::nat) None [1::nat]) host_ok module_init
      = (Inr (Some 0),
         \<lparr>defaultWorkerTimer = Some (step (Api (Call_setTimeout 7 None [1])) init),
          created = 1\<rparr>)
   \<and> bare (Call_setTimeout (7::nat) None [1::nat]) host_blocked module_init
      = (Inl 2, module_init)
   \<and> snd (terminate host_ok (module_init :: (nat, nat) module_state))
      = \<lparr>defaultWorkerTimer = Some (init\<lparr>terminated := True\<rparr>), created = 1\<rparr>
   \<and> bare (Call_setTimeout (7::nat) None [1::nat]) host_blocked
        \<lparr>defaultWorkerTimer = Some (init\<lparr>terminated := True\<rparr>), created = 1\<rparr>
      = (Inr (Some 0),
         \<lparr>defaultWorkerTimer
            = Some (step (Api (Call_setTimeout 7 None [1])) (init\<lparr>terminated := True\<rparr>)),
          created = 1\<rparr>)
   \<and> default_terminated
        (module_run [Bare (Call_setTimeout (7::nat) None [1::nat]) host_blocked]
           (snd (terminate host_ok module_init)))"
proof -
  let ?ok = "host_ok"
  let ?bad = "host_blocked"
  let ?M0 = "module_init :: (nat, nat) module_state"
  let ?M1 = "\<lparr>defaultWorkerTimer = Some (init\<lparr>terminated := True\<rparr>), created = 1\<rparr>
               :: (nat, nat) module_state"
  let ?c = "Call_setTimeout (7::nat) None [1::nat]"
  have ok: "snd (createWorker ?ok) = Inr Worker_of_data_url"
    by (simp add: createWorker_def try_catch_def createWorkerWithDataUrl_def and_then_def
          host_do_def host_ok_def)
  have bad: "snd (createWorker ?bad) = Inl 2"
    by (simp add: createWorker_def try_catch_def createWorkerWithDataUrl_def
          createWorkerWithBlob_def and_then_def host_do_def host_blocked_def)
  have none: "defaultWorkerTimer ?M0 = None"
    by (simp add: module_init_def)
  have some: "defaultWorkerTimer ?M1 = Some (init\<lparr>terminated := True\<rparr>)"
    by simp
  have r0: "result (Api ?c) (init :: (nat, nat) sys) = Some 0"
    by (simp add: run_eval)
  have r1: "result (Api ?c) ((init :: (nat, nat) sys)\<lparr>terminated := True\<rparr>) = Some 0"
    by (simp add: run_eval)
  note a = C10_default_instance
    [of "[]" "?M0" "?ok" Worker_of_data_url "?c" 2 init "[Bare ?c ?bad]"]
  note b = C10_default_instance
    [of "[]" "?M0" "?bad" Worker_of_data_url "?c" 2 init "[]"]
  note c = C10_default_instance
    [of "[]" "?M1" "?bad" Worker_of_data_url "?c" 2 "init\<lparr>terminated := True\<rparr>" "[]"]
  from a ok none have 1: "bare ?c ?ok ?M0
      = (Inr (result (Api ?c) init),
         ?M0\<lparr>defaultWorkerTimer := Some (step (Api ?c) init), created := created ?M0 + 1\<rparr>)"
    by blast
  from b bad none have 2: "bare ?c ?bad ?M0 = (Inl 2, ?M0)"
    by blast
  from a ok have 3: "snd (terminate ?ok ?M0) = ?M1"
    by blast
  from c some have 4: "bare ?c ?bad ?M1
      = (Inr (result (Api ?c) (init\<lparr>terminated := True\<rparr>)),
         ?M1\<lparr>defaultWorkerTimer := Some (step (Api ?c) (init\<lparr>terminated := True\<rparr>))\<rparr>)"
    by blast
  from a ok have 5: "default_terminated (module_run [Bare ?c ?bad] (snd (terminate ?ok ?M0)))"
    by blast
  from 1 have p1: "bare ?c ?ok ?M0
      = (Inr (Some 0), \<lparr>defaultWorkerTimer = Some (step (Api ?c) init), created = 1\<rparr>)"
    unfolding r0 by (simp add: module_init_def del: step.simps)
  from 4 have p4: "bare ?c ?bad ?M1
      = (Inr (Some 0),
         \<lparr>defaultWorkerTimer = Some (step (Api ?c) (init\<lparr>terminated := True\<rparr>)),
          created = 1\<rparr>)"
    unfolding r1 by (simp del: step.simps)
  from ok bad none p1 2 3 p4 5 show ?thesis by blast
qed

text \<open>
  The claim as stated, "the first call to any of the five bare module functions creates
  the default instance", fails when building the worker throws: under a host where
  \<^verbatim>\<open>new Worker(...)\<close> throws for the data URL and for the object URL, a first bare
  \<^verbatim>\<open>setTimeout(f, undefined, 1)\<close> throws and the variable is still \<^verbatim>\<open>null\<close>; no
  instance has been created.
\<close>

theorem C10_counterexample:
  "setTimeout (7::nat) None [1::nat] host_blocked module_init
     = (Inl 2, \<lparr>defaultWorkerTimer = None, created = 0\<rparr>)"
  by (simp add: setTimeout_def bare_def getWorkerTimer_def createWorkerTimer_def
        createWorker_def try_catch_def createWorkerWithDataUrl_def createWorkerWithBlob_def
        and_then_def host_do_def module_init_def host_blocked_def)

end
